theory Spec2Isabelle
  imports Main
begin

section \<open>Data model\<close>

text \<open>
  A JavaScript \<open>Date\<close> is its time value: milliseconds since the epoch, or
  \<open>NaN\<close> for an invalid date. Time values are integers, so \<open>int\<close> is exact.
\<close>

datatype jsdate = InvalidDate | Time int

text \<open>
  \<open>a >= b\<close> on two dates compares the time values as numbers; a comparison with
  \<open>NaN\<close> is false.
\<close>

fun date_ge :: "jsdate \<Rightarrow> jsdate \<Rightarrow> bool" where
  "date_ge (Time a) (Time b) = (b \<le> a)"
| "date_ge _ _ = False"

text \<open>
  A nullable string field is a \<open>string option\<close> (\<open>None\<close> is \<open>null\<close> or a
  missing property). JavaScript's truthiness test on such a field fails for \<open>null\<close>,
  \<open>undefined\<close> and the empty string.
\<close>

fun truthy :: "string option \<Rightarrow> bool" where
  "truthy None = False"
| "truthy (Some s) = (s \<noteq> [])"

record content_block =
  block_text :: "string option"

record message =
  uuid :: string
  parent_message_uuid :: "string option"
  sender :: "string option"
  content :: "content_block list option"
  msg_text :: "string option"
  created_at :: "jsdate option"

text \<open>
  The fields of \<open>message\<close>: \<open>msg_text\<close> is the legacy flat \<open>text\<close> property;
  \<open>created_at\<close> is \<open>None\<close> when the raw property is falsy and otherwise the date
  that \<open>new Date\<close> makes of it.
\<close>

record summary =
  uuid :: string
  name :: string
  model :: "string option"
  created_at :: jsdate
  updated_at :: jsdate

record conversation = summary +
  chat_messages :: "message list option"
  current_leaf_message_uuid :: "string option"

section \<open>Model inference\<close>

text \<open>
  The timeline's dates are \<open>new Date('YYYY-MM-DD')\<close>, that is midnight UTC of the day,
  written here as time values.
\<close>

definition DEFAULT_MODEL_TIMELINE :: "(int \<times> string) list" where
  "DEFAULT_MODEL_TIMELINE =
    [(1704067200000, ''claude-3-sonnet-20240229''),
     (1718841600000, ''claude-3-5-sonnet-20240620''),
     (1729555200000, ''claude-3-5-sonnet-20241022''),
     (1740355200000, ''claude-3-7-sonnet-20250219''),
     (1747872000000, ''claude-sonnet-4-20250514''),
     (1759104000000, ''claude-sonnet-4-5-20250929''),
     (1761955200000, ''claude-opus-4-5-20251101'')]"

text \<open>
  The loop \<open>for (i = length - 1; i >= 0; i--)\<close>: \<open>timeline_scan timeline n d\<close> has still
  to look at the indices below \<open>n\<close>, from \<open>n - 1\<close> down to \<open>0\<close>.
\<close>

fun timeline_scan :: "(int \<times> string) list \<Rightarrow> nat \<Rightarrow> jsdate \<Rightarrow> string option" where
  "timeline_scan timeline 0 conversationDate = None"
| "timeline_scan timeline (Suc i) conversationDate =
     (if date_ge conversationDate (Time (fst (timeline ! i))) then Some (snd (timeline ! i))
      else timeline_scan timeline i conversationDate)"

definition model_by_date :: "jsdate \<Rightarrow> string" where
  "model_by_date conversationDate =
     (case timeline_scan DEFAULT_MODEL_TIMELINE (length DEFAULT_MODEL_TIMELINE) conversationDate of
        Some m \<Rightarrow> m
      | None \<Rightarrow> snd (DEFAULT_MODEL_TIMELINE ! 0))"

definition inferModel :: "'a summary_scheme \<Rightarrow> string" where
  "inferModel conversation =
     (case model conversation of
        Some m \<Rightarrow> if m \<noteq> [] then m else model_by_date (summary.created_at conversation)
      | None \<Rightarrow> model_by_date (summary.created_at conversation))"

section \<open>Branch reconstruction\<close>

text \<open>
  \<open>messageMap\<close> is filled by \<open>forEach\<close> in the order of the collection, a later
  message replacing an earlier one with the same identifier. \<open>map_has\<close> and
  \<open>map_get\<close> are \<open>Map.has\<close> and \<open>Map.get\<close> at a key that may be \<open>null\<close>.
\<close>

definition messageMap :: "message list \<Rightarrow> (string \<rightharpoonup> message)" where
  "messageMap msgs = foldl (\<lambda>mp msg. mp(message.uuid msg \<mapsto> msg)) Map.empty msgs"

fun map_has :: "(string \<rightharpoonup> message) \<Rightarrow> string option \<Rightarrow> bool" where
  "map_has mp None = False"
| "map_has mp (Some u) = (mp u \<noteq> None)"

fun map_get :: "(string \<rightharpoonup> message) \<Rightarrow> string option \<Rightarrow> message option" where
  "map_get mp None = None"
| "map_get mp (Some u) = mp u"

text \<open>
  The \<open>while\<close> loop of \<open>getCurrentBranch\<close>. It has no bound, so it is a partial
  function: \<open>None\<close> is the loop that never ends.
\<close>

partial_function (option) trace_back ::
  "(string \<rightharpoonup> message) \<Rightarrow> string option \<Rightarrow> message list \<Rightarrow> message list option" where
  "trace_back mp currentUuid branch =
     (if truthy currentUuid \<and> map_has mp currentUuid then
        (case map_get mp currentUuid of
           None \<Rightarrow> Some branch
         | Some msg \<Rightarrow>
             if \<not> map_has mp (parent_message_uuid msg) then Some (msg # branch)
             else trace_back mp (parent_message_uuid msg) (msg # branch))
      else Some branch)"

definition getCurrentBranch :: "'a conversation_scheme \<Rightarrow> message list option" where
  "getCurrentBranch data =
     (case chat_messages data of
        None \<Rightarrow> Some []
      | Some msgs \<Rightarrow>
          if \<not> truthy (current_leaf_message_uuid data) then Some []
          else trace_back (messageMap msgs) (current_leaf_message_uuid data) [])"

text \<open>
  What the contract of the branch reconstruction says, in its own words. A parent
  identifier is absent when it is \<open>null\<close>, missing or empty; \<open>is_root\<close> holds of a
  message whose parent identifier is absent or resolves to no message.
  \<open>spec_branch mp u b\<close>: \<open>b\<close> is the sequence obtained by starting at the message
  that \<open>u\<close> resolves to and following parent identifiers, each resolved message put in
  front, up to and including a root.
\<close>

definition is_root :: "(string \<rightharpoonup> message) \<Rightarrow> message \<Rightarrow> bool" where
  "is_root mp msg =
     (\<not> truthy (parent_message_uuid msg) \<or> \<not> map_has mp (parent_message_uuid msg))"

inductive spec_branch :: "(string \<rightharpoonup> message) \<Rightarrow> string \<Rightarrow> message list \<Rightarrow> bool"
  for mp :: "string \<rightharpoonup> message" where
  root: "mp u = Some msg \<Longrightarrow> is_root mp msg \<Longrightarrow> spec_branch mp u [msg]"
| step: "mp u = Some msg \<Longrightarrow> parent_message_uuid msg = Some p \<Longrightarrow> p \<noteq> [] \<Longrightarrow>
         spec_branch mp p b \<Longrightarrow> spec_branch mp u (b @ [msg])"

text \<open>
  \<open>parent_step mp\<close> is one step along a parent pointer between two stored messages;
  \<open>parent_edges msgs\<close> are all the parent pointers of a message collection, as pairs
  (parent identifier, identifier), the orientation of a well-founded relation.
\<close>

definition parent_step :: "(string \<rightharpoonup> message) \<Rightarrow> (string \<times> string) set" where
  "parent_step mp =
     {(u, p). \<exists>msg. mp u = Some msg \<and> parent_message_uuid msg = Some p \<and> p \<noteq> [] \<and> mp p \<noteq> None}"

definition parent_edges :: "message list \<Rightarrow> (string \<times> string) set" where
  "parent_edges msgs =
     {(p, u). \<exists>msg \<in> set msgs. message.uuid msg = u \<and> parent_message_uuid msg = Some p}"

section \<open>Document rendering\<close>

text \<open>
  \<open>toLocaleString\<close> is the host's locale-dependent rendering of a date and is a
  parameter of the renderers. \<open>template_model\<close> is \<open>${data.model}\<close> in a template
  literal; every caller has stored the inferred model before rendering.
\<close>

definition template_model :: "string option \<Rightarrow> string" where
  "template_model m = (case m of Some s \<Rightarrow> s | None \<Rightarrow> ''null'')"

fun markdown_blocks :: "content_block list \<Rightarrow> string" where
  "markdown_blocks [] = []"
| "markdown_blocks (c # cs) =
     (case block_text c of
        Some t \<Rightarrow> if t \<noteq> [] then t @ ''\<newline>\<newline>'' else []
      | None \<Rightarrow> []) @ markdown_blocks cs"

definition markdown_sender :: "message \<Rightarrow> string" where
  "markdown_sender msg = (if sender msg = Some ''human'' then ''**You**'' else ''**Claude**'')"

definition markdown_message :: "(jsdate \<Rightarrow> string) \<Rightarrow> bool \<Rightarrow> message \<Rightarrow> string" where
  "markdown_message toLocaleString includeMetadata msg =
     markdown_sender msg @ '':\<newline>\<newline>'' @
     (case content msg of
        Some blocks \<Rightarrow> markdown_blocks blocks
      | None \<Rightarrow>
          (case msg_text msg of
             Some t \<Rightarrow> if t \<noteq> [] then t @ ''\<newline>\<newline>'' else []
           | None \<Rightarrow> [])) @
     (if includeMetadata then
        (case message.created_at msg of
           Some d \<Rightarrow> ''*'' @ toLocaleString d @ ''*\<newline>\<newline>''
         | None \<Rightarrow> [])
      else []) @
     ''---\<newline>\<newline>''"

definition markdown_header :: "(jsdate \<Rightarrow> string) \<Rightarrow> 'a conversation_scheme \<Rightarrow> bool \<Rightarrow> string" where
  "markdown_header toLocaleString data includeMetadata =
     ''# '' @ (if name data \<noteq> [] then name data else ''Untitled Conversation'') @ ''\<newline>\<newline>'' @
     (if includeMetadata then
        ''**Created:** '' @ toLocaleString (summary.created_at data) @ ''\<newline>'' @
        ''**Updated:** '' @ toLocaleString (updated_at data) @ ''\<newline>'' @
        ''**Model:** '' @ template_model (model data) @ ''\<newline>\<newline>'' @
        ''---\<newline>\<newline>''
      else [])"

definition convertToMarkdown ::
  "(jsdate \<Rightarrow> string) \<Rightarrow> 'a conversation_scheme \<Rightarrow> bool \<Rightarrow> string option" where
  "convertToMarkdown toLocaleString data includeMetadata =
     (case getCurrentBranch data of
        None \<Rightarrow> None
      | Some branchMessages \<Rightarrow>
          Some (foldl (\<lambda>markdown msg. markdown @ markdown_message toLocaleString includeMetadata msg)
                  (markdown_header toLocaleString data includeMetadata) branchMessages))"

fun text_blocks :: "content_block list \<Rightarrow> string" where
  "text_blocks [] = []"
| "text_blocks (c # cs) =
     (case block_text c of
        Some t \<Rightarrow> if t \<noteq> [] then t else []
      | None \<Rightarrow> []) @ text_blocks cs"

definition messageText :: "message \<Rightarrow> string" where
  "messageText msg =
     (case content msg of
        Some blocks \<Rightarrow> text_blocks blocks
      | None \<Rightarrow>
          (case msg_text msg of
             Some t \<Rightarrow> if t \<noteq> [] then t else []
           | None \<Rightarrow> []))"

text \<open>The state of the \<open>forEach\<close> of \<open>convertToText\<close>: the output and the two flags.\<close>

record text_state =
  out_text :: string
  humanSeen :: bool
  assistantSeen :: bool

definition senderLabel :: "text_state \<Rightarrow> message \<Rightarrow> string" where
  "senderLabel st msg =
     (if sender msg = Some ''human'' then (if humanSeen st then ''H'' else ''Human'')
      else (if assistantSeen st then ''A'' else ''Assistant''))"

definition text_step :: "text_state \<Rightarrow> message \<Rightarrow> text_state" where
  "text_step st msg =
     (if sender msg = Some ''human'' then
        st\<lparr>out_text := out_text st @ senderLabel st msg @ '': '' @ messageText msg @ ''\<newline>\<newline>'',
           humanSeen := True\<rparr>
      else
        st\<lparr>out_text := out_text st @ senderLabel st msg @ '': '' @ messageText msg @ ''\<newline>\<newline>'',
           assistantSeen := True\<rparr>)"

definition text_header :: "(jsdate \<Rightarrow> string) \<Rightarrow> 'a conversation_scheme \<Rightarrow> bool \<Rightarrow> string" where
  "text_header toLocaleString data includeMetadata =
     (if includeMetadata then
        (if name data \<noteq> [] then name data else ''Untitled Conversation'') @ ''\<newline>'' @
        ''Created: '' @ toLocaleString (summary.created_at data) @ ''\<newline>'' @
        ''Updated: '' @ toLocaleString (updated_at data) @ ''\<newline>'' @
        ''Model: '' @ template_model (model data) @ ''\<newline>\<newline>'' @
        ''---\<newline>\<newline>''
      else [])"

text \<open>
  \<open>String.prototype.trim\<close>. Strings are sequences of bytes here, the text in UTF-8.
  \<open>trim\<close> removes the white space and the line terminators of the language at both
  ends: tab, line feed, vertical tab, form feed, carriage return, space, U+00A0, U+1680,
  U+2000 to U+200A, U+2028, U+2029, U+202F, U+205F, U+3000 and U+FEFF, which
  \<open>white_space\<close> lists in their encoding. \<open>strip_one\<close> removes one of them from the
  front when there is one; \<open>strip_all\<close> does so at most \<open>n\<close> times, and a string has
  no more of them than bytes.
\<close>

definition white_space :: "string list" where
  "white_space =
     [[CHR 0x09], [CHR 0x0A], [CHR 0x0B], [CHR 0x0C], [CHR 0x0D], [CHR 0x20],
      [CHR 0xC2, CHR 0xA0],
      [CHR 0xE1, CHR 0x9A, CHR 0x80],
      [CHR 0xE2, CHR 0x80, CHR 0x80], [CHR 0xE2, CHR 0x80, CHR 0x81],
      [CHR 0xE2, CHR 0x80, CHR 0x82], [CHR 0xE2, CHR 0x80, CHR 0x83],
      [CHR 0xE2, CHR 0x80, CHR 0x84], [CHR 0xE2, CHR 0x80, CHR 0x85],
      [CHR 0xE2, CHR 0x80, CHR 0x86], [CHR 0xE2, CHR 0x80, CHR 0x87],
      [CHR 0xE2, CHR 0x80, CHR 0x88], [CHR 0xE2, CHR 0x80, CHR 0x89],
      [CHR 0xE2, CHR 0x80, CHR 0x8A],
      [CHR 0xE2, CHR 0x80, CHR 0xA8], [CHR 0xE2, CHR 0x80, CHR 0xA9],
      [CHR 0xE2, CHR 0x80, CHR 0xAF],
      [CHR 0xE2, CHR 0x81, CHR 0x9F],
      [CHR 0xE3, CHR 0x80, CHR 0x80],
      [CHR 0xEF, CHR 0xBB, CHR 0xBF]]"

fun strip_one :: "string list \<Rightarrow> string \<Rightarrow> string option" where
  "strip_one [] s = None"
| "strip_one (w # ws) s =
     (if take (length w) s = w then Some (drop (length w) s) else strip_one ws s)"

fun strip_all :: "string list \<Rightarrow> nat \<Rightarrow> string \<Rightarrow> string" where
  "strip_all ws 0 s = s"
| "strip_all ws (Suc n) s =
     (case strip_one ws s of None \<Rightarrow> s | Some s' \<Rightarrow> strip_all ws n s')"

definition trim_start :: "string \<Rightarrow> string" where
  "trim_start s = strip_all white_space (length s) s"

definition trim_end :: "string \<Rightarrow> string" where
  "trim_end s = rev (strip_all (map rev white_space) (length s) (rev s))"

definition trim :: "string \<Rightarrow> string" where
  "trim s = trim_end (trim_start s)"

definition convertToText ::
  "(jsdate \<Rightarrow> string) \<Rightarrow> 'a conversation_scheme \<Rightarrow> bool \<Rightarrow> string option" where
  "convertToText toLocaleString data includeMetadata =
     (case getCurrentBranch data of
        None \<Rightarrow> None
      | Some branchMessages \<Rightarrow>
          Some (trim (out_text (foldl text_step
                  \<lparr>out_text = text_header toLocaleString data includeMetadata,
                   humanSeen = False, assistantSeen = False\<rparr> branchMessages))))"

text \<open>
  The label of the text encoding, in the words of its description: the full word the
  first time a sender appears in the branch, one letter on every later appearance, the
  human and the other senders counted apart. \<open>labels_from\<close> are the labels the loop
  itself chooses, from a given state on.
\<close>

definition spec_label :: "message list \<Rightarrow> nat \<Rightarrow> string" where
  "spec_label branch i =
     (if sender (branch ! i) = Some ''human'' then
        (if list_ex (\<lambda>m. sender m = Some ''human'') (take i branch) then ''H'' else ''Human'')
      else
        (if list_ex (\<lambda>m. sender m \<noteq> Some ''human'') (take i branch) then ''A'' else ''Assistant''))"

fun labels_from :: "text_state \<Rightarrow> message list \<Rightarrow> string list" where
  "labels_from st [] = []"
| "labels_from st (msg # msgs) = senderLabel st msg # labels_from (text_step st msg) msgs"

section \<open>Export of one conversation\<close>

text \<open>
  What a request for a conversation comes back with: the request itself fails
  (\<open>NetworkError\<close>), the response is not ok (\<open>HttpError\<close> with its status), the body
  is no JSON (\<open>BodyError\<close>), or the record arrives.
\<close>

datatype 'c fetch_result = NetworkError | HttpError nat | BodyError | Ok 'c

text \<open>
  \<open>JSON.stringify\<close> belongs to the host. Its output is kept abstract, as a value of
  the type \<open>'j\<close>, and the host's functions are parameters of the exporters.
\<close>

datatype 'j file_content = Text string | JsonText 'j

record 'j download =
  file_content :: "'j file_content"
  filename :: string
  mime_type :: string

datatype 'j export_response = Downloaded "'j download" | ExportFailed

record export_summary =
  export_date :: string
  total_conversations :: nat
  successful_exports :: nat
  failed_exports :: nat
  failed_conversations :: "string list"
  format :: string
  include_metadata :: bool

record ('a, 'j) host =
  stringify :: "'a conversation_scheme \<Rightarrow> 'j"
  stringify_summary :: "export_summary \<Rightarrow> 'j"
  toLocaleString :: "jsdate \<Rightarrow> string"

record export_options =
  format :: string
  includeMetadata :: bool

record request = export_options +
  conversationId :: string

text \<open>The content script's handler of the message \<open>exportConversation\<close>.\<close>

definition exportConversation_handler ::
  "('a, 'j) host \<Rightarrow> request \<Rightarrow> 'a conversation_scheme fetch_result \<Rightarrow> 'j export_response option" where
  "exportConversation_handler h request fetched =
     (case fetched of
        Ok raw \<Rightarrow>
          (let data = raw\<lparr>model := Some (inferModel raw)\<rparr> in
           if export_options.format request = ''markdown'' then
             (case convertToMarkdown (toLocaleString h) data (includeMetadata request) of
                None \<Rightarrow> None
              | Some doc \<Rightarrow>
                  Some (Downloaded
                    \<lparr>file_content = Text doc,
                     filename = ''claude-conversation-'' @
                       (if name data \<noteq> [] then name data else conversationId request) @ ''.md'',
                     mime_type = ''text/markdown''\<rparr>))
           else if export_options.format request = ''text'' then
             (case convertToText (toLocaleString h) data (includeMetadata request) of
                None \<Rightarrow> None
              | Some doc \<Rightarrow>
                  Some (Downloaded
                    \<lparr>file_content = Text doc,
                     filename = ''claude-conversation-'' @
                       (if name data \<noteq> [] then name data else conversationId request) @ ''.txt'',
                     mime_type = ''text/plain''\<rparr>))
           else
             Some (Downloaded
               \<lparr>file_content = JsonText (stringify h data),
                filename = ''claude-conversation-'' @
                  (if name data \<noteq> [] then name data else conversationId request) @ ''.json'',
                mime_type = ''application/json''\<rparr>))
      | _ \<Rightarrow> Some ExportFailed)"

text \<open>
  \<open>exportConversation\<close> of the browse page: the format and the metadata flag are read
  from the page, the name is the one shown in the table.
\<close>

definition exportConversation ::
  "('a, 'j) host \<Rightarrow> export_options \<Rightarrow> string \<Rightarrow> string \<Rightarrow> 'a conversation_scheme fetch_result \<Rightarrow>
   'j export_response option" where
  "exportConversation h opts conversationId' conversationName' fetched =
     (case fetched of
        Ok raw \<Rightarrow>
          (let data = raw\<lparr>model := Some (inferModel raw)\<rparr> in
           if export_options.format opts = ''markdown'' then
             (case convertToMarkdown (toLocaleString h) data (includeMetadata opts) of
                None \<Rightarrow> None
              | Some doc \<Rightarrow>
                  Some (Downloaded
                    \<lparr>file_content = Text doc,
                     filename = ''claude-'' @
                       (if conversationName' \<noteq> [] then conversationName' else conversationId') @ ''.md'',
                     mime_type = ''text/markdown''\<rparr>))
           else if export_options.format opts = ''text'' then
             (case convertToText (toLocaleString h) data (includeMetadata opts) of
                None \<Rightarrow> None
              | Some doc \<Rightarrow>
                  Some (Downloaded
                    \<lparr>file_content = Text doc,
                     filename = ''claude-'' @
                       (if conversationName' \<noteq> [] then conversationName' else conversationId') @ ''.txt'',
                     mime_type = ''text/plain''\<rparr>))
           else
             Some (Downloaded
               \<lparr>file_content = JsonText (stringify h data),
                filename = ''claude-'' @
                  (if conversationName' \<noteq> [] then conversationName' else conversationId') @ ''.json'',
                mime_type = ''application/json''\<rparr>))
      | _ \<Rightarrow> Some ExportFailed)"

section \<open>Export of all conversations by the content script\<close>

text \<open>
  The content script's handler of the message \<open>exportAllConversations\<close>. The list of
  the conversations is requested first (\<open>listing\<close>); then the conversations are
  requested and exported one after the other, \<open>answer\<close> giving what the request for an
  identifier comes back with. For the format \<open>json\<close> the records are collected and
  downloaded as one file, otherwise every conversation is downloaded as a file of its
  own. \<open>JSON.stringify\<close> of the array of records and the rendering of dates are the
  host's; \<open>today\<close> is the date part of the host's clock in ISO form. The reply carries
  the number of exported conversations and a warning that joins, for every conversation
  that failed, its name or else its identifier with the message of the error; of the
  warning the names are kept.
\<close>

datatype all_reply = Replied nat "string list" | ReplyFailed

record 'j all_result =
  all_downloads :: "'j download list"
  reply :: all_reply

record 'j all_state =
  downloaded :: "'j download list"
  exported :: nat
  errors :: "string list"

fun fetch_each ::
  "(string \<Rightarrow> 'a conversation_scheme fetch_result) \<Rightarrow> summary list \<Rightarrow>
   'a conversation_scheme list \<Rightarrow> string list \<Rightarrow> 'a conversation_scheme list \<times> string list" where
  "fetch_each answer [] fullConversations errs = (fullConversations, errs)"
| "fetch_each answer (conv # convs) fullConversations errs =
     (case answer (summary.uuid conv) of
        Ok raw \<Rightarrow>
          fetch_each answer convs (fullConversations @ [raw\<lparr>model := Some (inferModel raw)\<rparr>]) errs
      | _ \<Rightarrow>
          fetch_each answer convs fullConversations
            (errs @ [if name conv \<noteq> [] then name conv else summary.uuid conv]))"

fun export_each ::
  "(jsdate \<Rightarrow> string) \<Rightarrow> 'b export_options_scheme \<Rightarrow>
   (string \<Rightarrow> 'a conversation_scheme fetch_result) \<Rightarrow> summary list \<Rightarrow> 'j all_state \<Rightarrow>
   'j all_state option" where
  "export_each show_date opts answer [] st = Some st"
| "export_each show_date opts answer (conv # convs) st =
     (case answer (summary.uuid conv) of
        Ok raw \<Rightarrow>
          (let fullConv = raw\<lparr>model := Some (inferModel raw)\<rparr> in
           if export_options.format opts = ''markdown'' then
             (case convertToMarkdown show_date fullConv (includeMetadata opts) of
                None \<Rightarrow> None
              | Some doc \<Rightarrow>
                  export_each show_date opts answer convs
                    (st\<lparr>downloaded := downloaded st @
                          [\<lparr>file_content = Text doc,
                            filename = ''claude-'' @
                              (if name conv \<noteq> [] then name conv else summary.uuid conv) @ ''.md'',
                            mime_type = ''text/markdown''\<rparr>],
                        exported := exported st + 1\<rparr>))
           else
             (case convertToText show_date fullConv (includeMetadata opts) of
                None \<Rightarrow> None
              | Some doc \<Rightarrow>
                  export_each show_date opts answer convs
                    (st\<lparr>downloaded := downloaded st @
                          [\<lparr>file_content = Text doc,
                            filename = ''claude-'' @
                              (if name conv \<noteq> [] then name conv else summary.uuid conv) @ ''.txt'',
                            mime_type = ''text/plain''\<rparr>],
                        exported := exported st + 1\<rparr>)))
      | _ \<Rightarrow>
          export_each show_date opts answer convs
            (st\<lparr>errors := errors st @ [if name conv \<noteq> [] then name conv else summary.uuid conv]\<rparr>))"

definition exportAllConversations ::
  "(jsdate \<Rightarrow> string) \<Rightarrow> ('a conversation_scheme list \<Rightarrow> 'j) \<Rightarrow> 'b export_options_scheme \<Rightarrow>
   string \<Rightarrow> summary list fetch_result \<Rightarrow> (string \<Rightarrow> 'a conversation_scheme fetch_result) \<Rightarrow>
   'j all_result option" where
  "exportAllConversations show_date stringify_all opts today listing answer =
     (case listing of
        Ok conversations \<Rightarrow>
          if export_options.format opts = ''json'' then
            (case fetch_each answer conversations [] [] of
               (fullConversations, errs) \<Rightarrow>
                 Some \<lparr>all_downloads =
                         [\<lparr>file_content = JsonText (stringify_all fullConversations),
                           filename = ''claude-all-conversations-'' @ today @ ''.json'',
                           mime_type = ''application/json''\<rparr>],
                       reply = Replied (length fullConversations) errs\<rparr>)
          else
            (case export_each show_date opts answer conversations
                    \<lparr>downloaded = [], exported = 0, errors = []\<rparr> of
               None \<Rightarrow> None
             | Some st \<Rightarrow> Some \<lparr>all_downloads = downloaded st, reply = Replied (exported st) (errors st)\<rparr>)
      | _ \<Rightarrow> Some \<lparr>all_downloads = [], reply = ReplyFailed\<rparr>)"

section \<open>Batch export\<close>

text \<open>
  The cancel button can be pressed only while the export waits: for a batch in
  flight (\<open>ClickInBatch k\<close>, the batches counted from 0), in the pause after a batch
  (\<open>ClickInPause k\<close>) or while the archive is generated (\<open>ClickInZip\<close>).

  The requests of a batch are in flight together. \<open>fetch\<close> gives what the request for
  an identifier comes back with, and \<open>arrival\<close> the time at which it has come back and
  the body of \<open>batch.map\<close> goes on for it.
\<close>

datatype click = NoClick | ClickInBatch nat | ClickInPause nat | ClickInZip

record 'a job = export_options +
  filteredConversations :: "summary list"
  fetch :: "string \<Rightarrow> 'a conversation_scheme fetch_result"
  arrival :: "string \<Rightarrow> nat"
  cancel_click :: click
  now :: string

text \<open>
  The variables of \<open>exportAllFiltered\<close>. \<open>zip_files\<close> are the entries of the archive
  under construction, by name; \<open>requests\<close> records the identifiers whose fetch has been
  issued, in order.
\<close>

record 'j export_state =
  zip_files :: "(string \<times> 'j file_content) list"
  completed :: nat
  failed :: nat
  failedConversations :: "string list"
  cancelExport :: bool
  requests :: "string list"

definition batchSize :: nat where
  "batchSize = 3"

text \<open>\<open>zip.file(name, data)\<close>: an entry of the same name is replaced.\<close>

fun zip_file :: "string \<Rightarrow> 'v \<Rightarrow> (string \<times> 'v) list \<Rightarrow> (string \<times> 'v) list" where
  "zip_file nm v [] = [(nm, v)]"
| "zip_file nm v ((k, w) # z) = (if k = nm then (nm, v) # z else (k, w) # zip_file nm v z)"

definition invalid_filename_chars :: "char list" where
  "invalid_filename_chars = ''<>:/|?*'' @ [CHR 0x22, CHR 0x5C]"

definition safeName :: "string \<Rightarrow> string" where
  "safeName nm = map (\<lambda>c. if c \<in> set invalid_filename_chars then CHR ''_'' else c) nm"

text \<open>
  The file name and the content that the body of \<open>batch.map\<close> generates for a
  fetched record (\<open>None\<close> when a renderer does not return).
\<close>

definition batch_entry ::
  "('a, 'j) host \<Rightarrow> 'a job \<Rightarrow> summary \<Rightarrow> 'a conversation_scheme \<Rightarrow> (string \<times> 'j file_content) option" where
  "batch_entry h job conv raw =
     (let data = raw\<lparr>model := Some (inferModel raw)\<rparr> in
      if export_options.format job = ''markdown'' then
        (case convertToMarkdown (toLocaleString h) data (includeMetadata job) of
           None \<Rightarrow> None
         | Some doc \<Rightarrow> Some (safeName (name conv) @ ''.md'', Text doc))
      else if export_options.format job = ''text'' then
        (case convertToText (toLocaleString h) data (includeMetadata job) of
           None \<Rightarrow> None
         | Some doc \<Rightarrow> Some (safeName (name conv) @ ''.txt'', Text doc))
      else Some (safeName (name conv) @ ''.json'', JsonText (stringify h data)))"

text \<open>
  The body of \<open>batch.map\<close> for one conversation from the point where its answer has
  arrived, with its \<open>try\<close> and \<open>catch\<close>: from there it runs without waiting.
\<close>

definition export_conv ::
  "('a, 'j) host \<Rightarrow> 'a job \<Rightarrow> summary \<Rightarrow> 'j export_state \<Rightarrow> 'j export_state option" where
  "export_conv h job conv st =
     (case fetch job (summary.uuid conv) of
        Ok raw \<Rightarrow>
          (case batch_entry h job conv raw of
             None \<Rightarrow> None
           | Some (fname, doc) \<Rightarrow>
               Some (st\<lparr>zip_files := zip_file fname doc (zip_files st),
                        completed := completed st + 1\<rparr>))
      | _ \<Rightarrow>
          Some (st\<lparr>failed := failed st + 1,
                   failedConversations := failedConversations st @ [name conv]\<rparr>))"

fun settle_batch ::
  "('a, 'j) host \<Rightarrow> 'a job \<Rightarrow> summary list \<Rightarrow> 'j export_state \<Rightarrow> 'j export_state option" where
  "settle_batch h job [] st = Some st"
| "settle_batch h job (conv # batch) st =
     (case export_conv h job conv st of
        None \<Rightarrow> None
      | Some st' \<Rightarrow> settle_batch h job batch st')"

text \<open>
  The order in which the bodies of a batch go on: by the time of arrival of their
  answers, and in the order of the batch for answers of the same time.
\<close>

definition settle_order :: "'a job \<Rightarrow> summary list \<Rightarrow> summary list" where
  "settle_order job batch = sort_key (\<lambda>conv. arrival job (summary.uuid conv)) batch"

text \<open>
  A batch: \<open>batch.map\<close> issues the requests in the order of the batch, and
  \<open>Promise.all\<close> waits until the body has run for every conversation.
\<close>

definition process_batch ::
  "('a, 'j) host \<Rightarrow> 'a job \<Rightarrow> summary list \<Rightarrow> 'j export_state \<Rightarrow> 'j export_state option" where
  "process_batch h job batch st =
     settle_batch h job (settle_order job batch)
       (st\<lparr>requests := requests st @ map summary.uuid batch\<rparr>)"

text \<open>
  The loop \<open>for (i = 0; i < total; i += batchSize)\<close>. After the batch has settled, a
  click during it has set the flag; the pause is taken when another batch follows and
  the flag is not set, and a click during it sets the flag.
\<close>

function batch_loop ::
  "('a, 'j) host \<Rightarrow> 'a job \<Rightarrow> nat \<Rightarrow> 'j export_state \<Rightarrow> 'j export_state option" where
  "batch_loop h job i st =
     (if i < length (filteredConversations job) then
        (if cancelExport st then Some st
         else
           (case process_batch h job
                   (take (min (i + batchSize) (length (filteredConversations job)) - i)
                      (drop i (filteredConversations job))) st of
              None \<Rightarrow> None
            | Some st1 \<Rightarrow>
                (let st2 = (if cancel_click job = ClickInBatch (i div batchSize)
                            then st1\<lparr>cancelExport := True\<rparr> else st1);
                     st3 = (if i + batchSize < length (filteredConversations job) \<and> \<not> cancelExport st2
                               \<and> cancel_click job = ClickInPause (i div batchSize)
                            then st2\<lparr>cancelExport := True\<rparr> else st2)
                 in batch_loop h job (i + batchSize) st3)))
      else Some st)"
  by pat_completeness auto
termination
  by (relation "measure (\<lambda>(h, job, i, st). length (filteredConversations job) - i)")
     (auto simp: batchSize_def)

declare batch_loop.simps [simp del]

datatype 'j outcome = Cancelled | Exported "(string \<times> 'j file_content) list"

text \<open>
  What \<open>exportAllFiltered\<close> leaves behind: the archive or none, the requests it has
  issued, and the value of the flag \<open>cancelExport\<close> at the end. After the check that
  follows the loop the flag is not read again; a click while the archive is generated
  still sets it.
\<close>

record 'j export_result =
  outcome :: "'j outcome"
  issued :: "string list"
  flag_at_end :: bool

definition initial_state :: "'j export_state" where
  "initial_state =
     \<lparr>zip_files = [], completed = 0, failed = 0, failedConversations = [],
      cancelExport = False, requests = []\<rparr>"

definition exportAllFiltered :: "('a, 'j) host \<Rightarrow> 'a job \<Rightarrow> 'j export_result option" where
  "exportAllFiltered h job =
     (case batch_loop h job 0 initial_state of
        None \<Rightarrow> None
      | Some st \<Rightarrow>
          if cancelExport st then
            Some \<lparr>outcome = Cancelled, issued = requests st, flag_at_end = True\<rparr>
          else
            Some \<lparr>outcome =
                    Exported
                      (zip_file ''export_summary.json''
                         (JsonText (stringify_summary h
                            \<lparr>export_date = now job,
                             total_conversations = length (filteredConversations job),
                             successful_exports = completed st,
                             failed_exports = failed st,
                             failed_conversations = failedConversations st,
                             export_summary.format = export_options.format job,
                             include_metadata = includeMetadata job\<rparr>))
                         (zip_files st)),
                  issued = requests st,
                  flag_at_end = (cancel_click job = ClickInZip)\<rparr>)"

text \<open>
  Notions for stating what a batch export does. \<open>arrival_order\<close>: the conversations
  of a list in the order in which their bodies go on, batch after batch;
  \<open>run_batches\<close>: all requests of a list issued and its conversations settled in that
  order. \<open>batch_entries\<close>: the entries that
  the fetched conversations of a list generate, in order; \<open>zip_all\<close>: storing them one
  after the other. \<open>fetch_ok\<close>, \<open>answered\<close>: the record of the conversation arrives. \<open>spec_ext\<close>:
  the extension of a format; \<open>entry_name\<close>: the name under which a conversation is
  stored. \<open>well_formed\<close>: the invariant of the data model, that the messages of a
  record form a forest; \<open>renderable\<close> asks it of a record only when the format of the
  job walks the messages.
\<close>

function arrival_order :: "'a job \<Rightarrow> summary list \<Rightarrow> summary list" where
  "arrival_order job convs =
     (if convs = [] then []
      else settle_order job (take batchSize convs) @ arrival_order job (drop batchSize convs))"
  by pat_completeness auto
termination
  by (relation "measure (\<lambda>(job, convs). length convs)") (auto simp: batchSize_def)

declare arrival_order.simps [simp del]

definition run_batches ::
  "('a, 'j) host \<Rightarrow> 'a job \<Rightarrow> summary list \<Rightarrow> 'j export_state \<Rightarrow> 'j export_state option" where
  "run_batches h job convs st =
     settle_batch h job (arrival_order job convs)
       (st\<lparr>requests := requests st @ map summary.uuid convs\<rparr>)"

definition batch_entries ::
  "('a, 'j) host \<Rightarrow> 'a job \<Rightarrow> summary list \<Rightarrow> (string \<times> 'j file_content) list" where
  "batch_entries h job convs =
     List.map_filter
       (\<lambda>conv. case fetch job (summary.uuid conv) of Ok raw \<Rightarrow> batch_entry h job conv raw | _ \<Rightarrow> None)
       convs"

definition zip_all :: "(string \<times> 'v) list \<Rightarrow> (string \<times> 'v) list \<Rightarrow> (string \<times> 'v) list" where
  "zip_all z entries = foldl (\<lambda>z e. zip_file (fst e) (snd e) z) z entries"

definition fetch_ok :: "'a job \<Rightarrow> summary \<Rightarrow> bool" where
  "fetch_ok job conv = (case fetch job (summary.uuid conv) of Ok raw \<Rightarrow> True | _ \<Rightarrow> False)"

definition answered :: "(string \<Rightarrow> 'c fetch_result) \<Rightarrow> summary \<Rightarrow> bool" where
  "answered answer conv = (case answer (summary.uuid conv) of Ok raw \<Rightarrow> True | _ \<Rightarrow> False)"

definition spec_ext :: "string \<Rightarrow> string" where
  "spec_ext fmt = (if fmt = ''markdown'' then ''.md'' else if fmt = ''text'' then ''.txt'' else ''.json'')"

definition entry_name :: "'a job \<Rightarrow> summary \<Rightarrow> string" where
  "entry_name job conv = safeName (name conv) @ spec_ext (export_options.format job)"

definition well_formed :: "'a conversation_scheme \<Rightarrow> bool" where
  "well_formed raw = (\<forall>msgs. chat_messages raw = Some msgs \<longrightarrow> acyclic (parent_edges msgs))"

definition renderable :: "'a job \<Rightarrow> 'a conversation_scheme \<Rightarrow> bool" where
  "renderable job raw =
     (export_options.format job = ''markdown'' \<or> export_options.format job = ''text'' \<longrightarrow>
      well_formed raw)"

section \<open>Example records\<close>

text \<open>
  A conversation with a root, a reply to it and a second, abandoned reply; the current
  leaf is the first reply.
\<close>

definition ex_root :: message where
  "ex_root = \<lparr>message.uuid = ''m1'', parent_message_uuid = None, sender = Some ''human'',
     content = None, msg_text = Some ''hi'', created_at = None\<rparr>"

definition ex_reply :: message where
  "ex_reply = \<lparr>message.uuid = ''m2'', parent_message_uuid = Some ''m1'', sender = Some ''assistant'',
     content = Some [\<lparr>block_text = Some ''hello''\<rparr>], msg_text = None, created_at = None\<rparr>"

definition ex_sibling :: message where
  "ex_sibling = \<lparr>message.uuid = ''m3'', parent_message_uuid = Some ''m1'', sender = Some ''assistant'',
     content = Some [\<lparr>block_text = Some ''good day''\<rparr>], msg_text = None, created_at = None\<rparr>"

definition ex_conv :: conversation where
  "ex_conv = \<lparr>summary.uuid = ''c1'', name = ''Trip'', model = None,
     created_at = Time 1718841600000, updated_at = Time 1718841600000,
     chat_messages = Some [ex_root, ex_reply, ex_sibling],
     current_leaf_message_uuid = Some ''m2''\<rparr>"

text \<open>A conversation whose first message names a parent that is not stored.\<close>

definition ex_orphan :: message where
  "ex_orphan = \<lparr>message.uuid = ''m4'', parent_message_uuid = Some ''gone'', sender = Some ''human'',
     content = None, msg_text = Some ''hi'', created_at = None\<rparr>"

definition ex_orphan_reply :: message where
  "ex_orphan_reply = \<lparr>message.uuid = ''m5'', parent_message_uuid = Some ''m4'',
     sender = Some ''assistant'', content = None, msg_text = Some ''hello'', created_at = None\<rparr>"

definition ex_dangling :: conversation where
  "ex_dangling = \<lparr>summary.uuid = ''c2'', name = ''Trip'', model = None,
     created_at = Time 0, updated_at = Time 0,
     chat_messages = Some [ex_orphan, ex_orphan_reply],
     current_leaf_message_uuid = Some ''m5''\<rparr>"

text \<open>A conversation without messages, and one whose two messages name each other as parent.\<close>

definition ex_empty :: conversation where
  "ex_empty = \<lparr>summary.uuid = ''c3'', name = [], model = None,
     created_at = Time 0, updated_at = Time 0,
     chat_messages = Some [], current_leaf_message_uuid = Some ''m1''\<rparr>"

definition ex_loop_a :: message where
  "ex_loop_a = \<lparr>message.uuid = ''a'', parent_message_uuid = Some ''b'', sender = Some ''human'',
     content = None, msg_text = None, created_at = None\<rparr>"

definition ex_loop_b :: message where
  "ex_loop_b = \<lparr>message.uuid = ''b'', parent_message_uuid = Some ''a'', sender = Some ''assistant'',
     content = None, msg_text = None, created_at = None\<rparr>"

definition ex_cyclic :: conversation where
  "ex_cyclic = \<lparr>summary.uuid = ''c4'', name = ''Loop'', model = None,
     created_at = Time 0, updated_at = Time 0,
     chat_messages = Some [ex_loop_a, ex_loop_b], current_leaf_message_uuid = Some ''a''\<rparr>"

text \<open>A conversation of five messages in one line of descent.\<close>

definition ex_msg :: "string \<Rightarrow> string option \<Rightarrow> string \<Rightarrow> string \<Rightarrow> message" where
  "ex_msg u p s t = \<lparr>message.uuid = u, parent_message_uuid = p, sender = Some s,
     content = None, msg_text = Some t, created_at = None\<rparr>"

definition ex_talk :: conversation where
  "ex_talk = \<lparr>summary.uuid = ''c5'', name = ''Talk'', model = Some ''claude-3-opus-20240229'',
     created_at = Time 0, updated_at = Time 0,
     chat_messages = Some
       [ex_msg ''t1'' None ''human'' ''one'',
        ex_msg ''t2'' (Some ''t1'') ''assistant'' ''two'',
        ex_msg ''t3'' (Some ''t2'') ''human'' ''three'',
        ex_msg ''t4'' (Some ''t3'') ''human'' ''four'',
        ex_msg ''t5'' (Some ''t4'') ''assistant'' ''five''],
     current_leaf_message_uuid = Some ''t5''\<rparr>"

text \<open>
  A conversation in which a message of the sender \<open>system\<close> and a message without
  sender follow a human message.
\<close>

definition ex_other :: conversation where
  "ex_other = \<lparr>summary.uuid = ''c6'', name = ''Other'', model = Some ''claude-3-opus-20240229'',
     created_at = Time 0, updated_at = Time 0,
     chat_messages = Some
       [ex_msg ''s1'' None ''human'' ''ask'',
        ex_msg ''s2'' (Some ''s1'') ''system'' ''note'',
        (ex_msg ''s3'' (Some ''s2'') [] ''more'')\<lparr>sender := None\<rparr>],
     current_leaf_message_uuid = Some ''s3''\<rparr>"

text \<open>
  A host for the examples: the JSON text of a value is represented by the value. Seven
  conversations to export, the fifth of which the server refuses; and two conversations
  of the same name. In both jobs all answers have the same time of arrival, so that
  the bodies go on in the order of the requests.
\<close>

definition ex_host :: "(unit, conversation + export_summary) host" where
  "ex_host = \<lparr>stringify = Inl, stringify_summary = Inr, toLocaleString = (\<lambda>d. ''date'')\<rparr>"

definition ex_summary :: "string \<Rightarrow> string \<Rightarrow> summary" where
  "ex_summary u n = \<lparr>summary.uuid = u, name = n, model = None,
     created_at = Time 1718841600000, updated_at = Time 1718841600000\<rparr>"

definition ex_job7 :: "unit job" where
  "ex_job7 = \<lparr>export_options.format = ''text'', includeMetadata = False,
     filteredConversations =
       [ex_summary ''u1'' ''One'', ex_summary ''u2'' ''Two'', ex_summary ''u3'' ''Three'',
        ex_summary ''u4'' ''Four'', ex_summary ''u5'' ''Five'', ex_summary ''u6'' ''Six'',
        ex_summary ''u7'' ''Seven''],
     fetch = (\<lambda>u. if u = ''u5'' then HttpError 500 else Ok ex_conv),
     arrival = (\<lambda>u. 0),
     cancel_click = NoClick,
     now = ''2025-01-01T00:00:00.000Z''\<rparr>"

definition ex_job_same_name :: "unit job" where
  "ex_job_same_name = \<lparr>export_options.format = ''text'', includeMetadata = False,
     filteredConversations = [ex_summary ''u1'' ''Chat'', ex_summary ''u2'' ''Chat''],
     fetch = (\<lambda>u. if u = ''u1'' then Ok ex_conv else Ok ex_talk),
     arrival = (\<lambda>u. 0),
     cancel_click = NoClick,
     now = ''2025-01-01T00:00:00.000Z''\<rparr>"

definition ex_request :: request where
  "ex_request = \<lparr>export_options.format = ''json'', includeMetadata = False, conversationId = ''c1''\<rparr>"

text \<open>
  A parser for the example host, options of the browse page, and a list of three
  conversations, the second without a name, the third refused by the server.
\<close>

definition ex_parse :: "conversation + export_summary \<Rightarrow> conversation option" where
  "ex_parse j = (case j of Inl v \<Rightarrow> Some v | Inr s \<Rightarrow> None)"

definition ex_options :: export_options where
  "ex_options = \<lparr>export_options.format = ''text'', includeMetadata = False\<rparr>"

definition ex_listing :: "summary list" where
  "ex_listing = [ex_summary ''u1'' ''One'', ex_summary ''u2'' [], ex_summary ''u3'' ''Three'']"

definition ex_answer :: "string \<Rightarrow> conversation fetch_result" where
  "ex_answer u = (if u = ''u3'' then HttpError 404 else Ok ex_conv)"

section \<open>Properties of model inference\<close>



lemma timeline_scan_Some:
  "i < n \<Longrightarrow> fst (timeline ! i) \<le> t \<Longrightarrow> \<forall>j<n. fst (timeline ! j) \<le> t \<longrightarrow> j \<le> i \<Longrightarrow>
   timeline_scan timeline n (Time t) = Some (snd (timeline ! i))"
proof (induction n)
  case 0
  then show ?case by simp
next
  case (Suc n)
  show ?case
  proof (cases "fst (timeline ! n) \<le> t")
    case True
    with Suc.prems have "n \<le> i" by blast
    with Suc.prems have "i = n" by simp
    with True show ?thesis by simp
  next
    case False
    with Suc.prems have "i \<noteq> n" by auto
    with Suc.prems have "i < n" by simp
    moreover have "\<forall>j<n. fst (timeline ! j) \<le> t \<longrightarrow> j \<le> i" using Suc.prems by simp
    ultimately have "timeline_scan timeline n (Time t) = Some (snd (timeline ! i))"
      using Suc.IH Suc.prems by blast
    with False show ?thesis by simp
  qed
qed

lemma timeline_scan_None:
  "\<forall>j<n. t < fst (timeline ! j) \<Longrightarrow> timeline_scan timeline n (Time t) = None"
  by (induction n) auto

lemma timeline_scan_Invalid: "timeline_scan timeline n InvalidDate = None"
  by (induction n) auto

lemma timeline_sorted: "sorted_wrt (<) (map fst DEFAULT_MODEL_TIMELINE)"
  by (simp add: DEFAULT_MODEL_TIMELINE_def)

lemma timeline_models_nonempty: "\<forall>e \<in> set DEFAULT_MODEL_TIMELINE. snd e \<noteq> []"
  by (simp add: DEFAULT_MODEL_TIMELINE_def)

lemma timeline_nonempty: "DEFAULT_MODEL_TIMELINE \<noteq> []"
  by (simp add: DEFAULT_MODEL_TIMELINE_def)

lemma model_by_date_latest:
  assumes mem: "(d, m) \<in> set DEFAULT_MODEL_TIMELINE" and le: "d \<le> t"
    and latest: "\<forall>d' m'. (d', m') \<in> set DEFAULT_MODEL_TIMELINE \<and> d' \<le> t \<longrightarrow> d' \<le> d"
  shows "model_by_date (Time t) = m"
proof -
  let ?tl = DEFAULT_MODEL_TIMELINE
  from mem obtain i where i: "i < length ?tl" "?tl ! i = (d, m)"
    by (auto simp: in_set_conv_nth)
  have "\<forall>j<length ?tl. fst (?tl ! j) \<le> t \<longrightarrow> j \<le> i"
  proof (intro allI impI)
    fix j assume j: "j < length ?tl" "fst (?tl ! j) \<le> t"
    then have "(fst (?tl ! j), snd (?tl ! j)) \<in> set ?tl" by simp
    with j latest have "fst (?tl ! j) \<le> d" by blast
    show "j \<le> i"
    proof (rule ccontr)
      assume "\<not> j \<le> i"
      then have "i < j" by simp
      with j(1) timeline_sorted have "map fst ?tl ! i < map fst ?tl ! j"
        by (simp add: sorted_wrt_iff_nth_less del: nth_map)
      with i j(1) \<open>i < j\<close> have "d < fst (?tl ! j)" by simp
      with \<open>fst (?tl ! j) \<le> d\<close> show False by simp
    qed
  qed
  with i le have "timeline_scan ?tl (length ?tl) (Time t) = Some (snd (?tl ! i))"
    by (intro timeline_scan_Some) simp_all
  with i show ?thesis by (simp add: model_by_date_def)
qed

lemma model_by_date_before:
  assumes "\<forall>d m. (d, m) \<in> set DEFAULT_MODEL_TIMELINE \<longrightarrow> t < d"
  shows "model_by_date (Time t) = snd (hd DEFAULT_MODEL_TIMELINE)"
proof -
  let ?tl = DEFAULT_MODEL_TIMELINE
  have "\<forall>j<length ?tl. t < fst (?tl ! j)"
  proof (intro allI impI)
    fix j assume "j < length ?tl"
    then have "(fst (?tl ! j), snd (?tl ! j)) \<in> set ?tl" by simp
    with assms show "t < fst (?tl ! j)" by blast
  qed
  then have "timeline_scan ?tl (length ?tl) (Time t) = None"
    by (rule timeline_scan_None)
  then show ?thesis using timeline_nonempty by (simp add: model_by_date_def hd_conv_nth)
qed

lemma model_by_date_in_timeline: "model_by_date d \<in> snd ` set DEFAULT_MODEL_TIMELINE"
proof (cases "timeline_scan DEFAULT_MODEL_TIMELINE (length DEFAULT_MODEL_TIMELINE) d")
  case None
  then show ?thesis using timeline_nonempty by (simp add: model_by_date_def)
next
  case (Some m)
  have "timeline_scan timeline n d = Some m \<Longrightarrow> n \<le> length timeline \<Longrightarrow> m \<in> snd ` set timeline" for timeline n
    by (induction n) (auto split: if_splits)
  with Some show ?thesis by (simp add: model_by_date_def)
qed

lemma model_by_date_nonempty: "model_by_date d \<noteq> []"
  using model_by_date_in_timeline [of d] timeline_models_nonempty by auto

text \<open>
  Claim C2. \<open>inferModel\<close> returns the record's model unchanged when it is neither
  null nor empty. Otherwise it returns the model of the latest timeline entry whose
  date is at most the record's creation date; a creation date equal to an entry's date
  gives that entry; a creation date before every entry gives the earliest entry's
  model. The result is never empty.
\<close>
theorem inferModel_spec:
  "(\<forall>m. model c = Some m \<and> m \<noteq> [] \<longrightarrow> inferModel c = m) \<and>
   (\<not> truthy (model c) \<longrightarrow>
      (\<forall>t d m. summary.created_at c = Time t \<and> (d, m) \<in> set DEFAULT_MODEL_TIMELINE \<and> d \<le> t \<and>
          (\<forall>d' m'. (d', m') \<in> set DEFAULT_MODEL_TIMELINE \<and> d' \<le> t \<longrightarrow> d' \<le> d)
          \<longrightarrow> inferModel c = m) \<and>
      (\<forall>d m. summary.created_at c = Time d \<and> (d, m) \<in> set DEFAULT_MODEL_TIMELINE
          \<longrightarrow> inferModel c = m) \<and>
      (\<forall>t. summary.created_at c = Time t \<and>
          (\<forall>d m. (d, m) \<in> set DEFAULT_MODEL_TIMELINE \<longrightarrow> t < d)
          \<longrightarrow> inferModel c = snd (hd DEFAULT_MODEL_TIMELINE))) \<and>
   inferModel c \<noteq> []"
proof (intro conjI allI impI)
  fix m assume "model c = Some m \<and> m \<noteq> []"
  then show "inferModel c = m" by (simp add: inferModel_def)
next
  assume nt: "\<not> truthy (model c)"
  then have by_date: "inferModel c = model_by_date (summary.created_at c)"
    by (cases "model c") (simp_all add: inferModel_def)
  {
    fix t d m
    assume "summary.created_at c = Time t \<and> (d, m) \<in> set DEFAULT_MODEL_TIMELINE \<and> d \<le> t \<and>
          (\<forall>d' m'. (d', m') \<in> set DEFAULT_MODEL_TIMELINE \<and> d' \<le> t \<longrightarrow> d' \<le> d)"
    then have "model_by_date (Time t) = m" by (intro model_by_date_latest) blast+
    with \<open>summary.created_at c = Time t \<and> _\<close> show "inferModel c = m" using by_date by simp
  }
  {
    fix d m
    assume "summary.created_at c = Time d \<and> (d, m) \<in> set DEFAULT_MODEL_TIMELINE"
    then have "model_by_date (Time d) = m" by (intro model_by_date_latest) (blast, simp, blast)
    with \<open>summary.created_at c = Time d \<and> _\<close> show "inferModel c = m" using by_date by simp
  }
  {
    fix t
    assume "summary.created_at c = Time t \<and>
          (\<forall>d m. (d, m) \<in> set DEFAULT_MODEL_TIMELINE \<longrightarrow> t < d)"
    then show "inferModel c = snd (hd DEFAULT_MODEL_TIMELINE)"
      using by_date model_by_date_before [of t] by simp
  }
next
  show "inferModel c \<noteq> []"
    by (cases "model c") (simp_all add: inferModel_def model_by_date_nonempty)
qed



theorem inferModel_spec_witness:
  "inferModel \<lparr>summary.uuid = ''c1'', name = ''Trip'', model = Some ''claude-3-opus-20240229'',
      created_at = Time 1718841600000, updated_at = Time 1718841600000\<rparr> = ''claude-3-opus-20240229'' \<and>
   inferModel \<lparr>summary.uuid = ''c2'', name = ''Trip'', model = None,
      created_at = Time 1718841600000, updated_at = Time 1718841600000\<rparr> = ''claude-3-5-sonnet-20240620'' \<and>
   inferModel \<lparr>summary.uuid = ''c3'', name = ''Trip'', model = Some [],
      created_at = Time 1718841599999, updated_at = Time 1718841600000\<rparr> = ''claude-3-sonnet-20240229'' \<and>
   inferModel \<lparr>summary.uuid = ''c4'', name = ''Trip'', model = None,
      created_at = Time 0, updated_at = Time 0\<rparr> = ''claude-3-sonnet-20240229''"
proof -
  let ?c1 = "\<lparr>summary.uuid = ''c1'', name = ''Trip'', model = Some ''claude-3-opus-20240229'',
      created_at = Time 1718841600000, updated_at = Time 1718841600000\<rparr>"
  let ?c2 = "\<lparr>summary.uuid = ''c2'', name = ''Trip'', model = None,
      created_at = Time 1718841600000, updated_at = Time 1718841600000\<rparr>"
  let ?c3 = "\<lparr>summary.uuid = ''c3'', name = ''Trip'', model = Some [],
      created_at = Time 1718841599999, updated_at = Time 1718841600000\<rparr>"
  let ?c4 = "\<lparr>summary.uuid = ''c4'', name = ''Trip'', model = None,
      created_at = Time 0, updated_at = Time 0\<rparr>"
  have 1: "inferModel ?c1 = ''claude-3-opus-20240229''"
    using inferModel_spec [of ?c1] by simp
  have "\<not> truthy (model ?c2)" by simp
  with inferModel_spec [of ?c2]
  have "\<forall>d m. summary.created_at ?c2 = Time d \<and> (d, m) \<in> set DEFAULT_MODEL_TIMELINE
          \<longrightarrow> inferModel ?c2 = m" by blast
  moreover have "summary.created_at ?c2 = Time 1718841600000 \<and>
      (1718841600000, ''claude-3-5-sonnet-20240620'') \<in> set DEFAULT_MODEL_TIMELINE"
    by (simp add: DEFAULT_MODEL_TIMELINE_def)
  ultimately have 2: "inferModel ?c2 = ''claude-3-5-sonnet-20240620''" by blast
  have "\<not> truthy (model ?c3)" by simp
  with inferModel_spec [of ?c3]
  have "\<forall>t d m. summary.created_at ?c3 = Time t \<and> (d, m) \<in> set DEFAULT_MODEL_TIMELINE \<and> d \<le> t \<and>
          (\<forall>d' m'. (d', m') \<in> set DEFAULT_MODEL_TIMELINE \<and> d' \<le> t \<longrightarrow> d' \<le> d)
          \<longrightarrow> inferModel ?c3 = m" by blast
  moreover have "summary.created_at ?c3 = Time 1718841599999 \<and>
      (1704067200000, ''claude-3-sonnet-20240229'') \<in> set DEFAULT_MODEL_TIMELINE \<and>
      (1704067200000 :: int) \<le> 1718841599999 \<and>
      (\<forall>d' m'. (d', m') \<in> set DEFAULT_MODEL_TIMELINE \<and> d' \<le> 1718841599999 \<longrightarrow> d' \<le> 1704067200000)"
    by (simp add: DEFAULT_MODEL_TIMELINE_def) linarith
  ultimately have 3: "inferModel ?c3 = ''claude-3-sonnet-20240229''" by blast
  have "\<not> truthy (model ?c4)" by simp
  with inferModel_spec [of ?c4]
  have "\<forall>t. summary.created_at ?c4 = Time t \<and>
          (\<forall>d m. (d, m) \<in> set DEFAULT_MODEL_TIMELINE \<longrightarrow> t < d)
          \<longrightarrow> inferModel ?c4 = snd (hd DEFAULT_MODEL_TIMELINE)" by blast
  moreover have "summary.created_at ?c4 = Time 0 \<and>
          (\<forall>d m. (d, m) \<in> set DEFAULT_MODEL_TIMELINE \<longrightarrow> 0 < d)"
    by (auto simp: DEFAULT_MODEL_TIMELINE_def)
  ultimately have "inferModel ?c4 = snd (hd DEFAULT_MODEL_TIMELINE)" by blast
  then have 4: "inferModel ?c4 = ''claude-3-sonnet-20240229''"
    by (simp add: DEFAULT_MODEL_TIMELINE_def)
  from 1 2 3 4 show ?thesis by (intro conjI)
qed


section \<open>Properties of the branch reconstruction\<close>

lemma foldl_messageMap_Some:
  "foldl (\<lambda>mp msg. mp(message.uuid msg \<mapsto> msg)) mp0 msgs u = Some m \<Longrightarrow>
   (m \<in> set msgs \<and> message.uuid m = u) \<or> mp0 u = Some m"
  by (induction msgs arbitrary: mp0) (fastforce split: if_splits)+

lemma messageMap_Some: "messageMap msgs u = Some m \<Longrightarrow> m \<in> set msgs \<and> message.uuid m = u"
  using foldl_messageMap_Some [of Map.empty msgs u m] by (simp add: messageMap_def)

lemma messageMap_Nil: "messageMap [] u = None"
  by (simp add: messageMap_def)

lemma trace_back_stop:
  "\<not> (truthy cur \<and> map_has mp cur) \<Longrightarrow> trace_back mp cur branch = Some branch"
  by (subst trace_back.simps) auto

lemma trace_back_root:
  "u \<noteq> [] \<Longrightarrow> mp u = Some msg \<Longrightarrow> \<not> map_has mp (parent_message_uuid msg) \<Longrightarrow>
   trace_back mp (Some u) branch = Some (msg # branch)"
  by (subst trace_back.simps) simp

lemma trace_back_step:
  "u \<noteq> [] \<Longrightarrow> mp u = Some msg \<Longrightarrow> map_has mp (parent_message_uuid msg) \<Longrightarrow>
   trace_back mp (Some u) branch = trace_back mp (parent_message_uuid msg) (msg # branch)"
  by (subst trace_back.simps) simp

lemma spec_branch_resolves: "spec_branch mp u b \<Longrightarrow> mp u \<noteq> None"
  by (induction rule: spec_branch.induct) auto

lemma spec_branch_trace_back:
  "spec_branch mp u b \<Longrightarrow> u \<noteq> [] \<Longrightarrow> trace_back mp (Some u) acc = Some (b @ acc)"
proof (induction arbitrary: acc rule: spec_branch.induct)
  case (root u msg)
  show ?case
  proof (cases "map_has mp (parent_message_uuid msg)")
    case False
    with root show ?thesis by (simp add: trace_back_root)
  next
    case True
    with root have "\<not> truthy (parent_message_uuid msg)" by (simp add: is_root_def)
    then have "trace_back mp (parent_message_uuid msg) (msg # acc) = Some (msg # acc)"
      by (simp add: trace_back_stop)
    with root True show ?thesis by (simp add: trace_back_step)
  qed
next
  case (step u msg p b)
  from step have "map_has mp (parent_message_uuid msg)"
    by (simp add: spec_branch_resolves)
  with step have "trace_back mp (Some u) acc = trace_back mp (Some p) (msg # acc)"
    by (simp add: trace_back_step)
  with step show ?case by simp
qed

lemma trace_back_spec_branch_aux:
  assumes ret: "trace_back mp cur acc = Some r"
  shows "(\<not> (truthy cur \<and> map_has mp cur) \<longrightarrow> r = acc) \<and>
   (\<forall>u. cur = Some u \<and> u \<noteq> [] \<and> mp u \<noteq> None \<longrightarrow> (\<exists>b. r = b @ acc \<and> spec_branch mp u b))"
proof -
  define P where "P = (\<lambda>mp cur acc r.
    (\<not> (truthy cur \<and> map_has mp cur) \<longrightarrow> r = acc) \<and>
    (\<forall>u. cur = Some u \<and> u \<noteq> [] \<and> mp u \<noteq> None \<longrightarrow> (\<exists>b. r = b @ acc \<and> spec_branch mp u b)))"
  have "P mp cur acc r"
  proof (rule trace_back.raw_induct [rotated, OF ret])
    fix walk mp cur acc r
    assume IH: "\<And>mp cur acc r. walk mp cur acc = Some r \<Longrightarrow> P mp cur acc r"
      and body: "(if truthy cur \<and> map_has mp cur
          then case map_get mp cur of None \<Rightarrow> Some acc
               | Some msg \<Rightarrow>
                   if \<not> map_has mp (parent_message_uuid msg) then Some (msg # acc)
                   else walk mp (parent_message_uuid msg) (msg # acc)
          else Some acc) = Some r"
    show "P mp cur acc r"
      unfolding P_def
    proof (intro conjI impI allI)
      assume "\<not> (truthy cur \<and> map_has mp cur)"
      with body show "r = acc" by (auto split: if_splits)
    next
      fix u assume u: "cur = Some u \<and> u \<noteq> [] \<and> mp u \<noteq> None"
      then obtain msg where msg: "mp u = Some msg" by auto
      show "\<exists>b. r = b @ acc \<and> spec_branch mp u b"
      proof (cases "map_has mp (parent_message_uuid msg)")
        case False
        with u msg body have "r = msg # acc" by auto
        moreover from False msg have "spec_branch mp u [msg]"
          by (simp add: spec_branch.root is_root_def)
        ultimately show ?thesis by auto
      next
        case True
        with u msg body have w: "walk mp (parent_message_uuid msg) (msg # acc) = Some r" by auto
        from IH [OF w] have ih: "(\<not> (truthy (parent_message_uuid msg) \<and> map_has mp (parent_message_uuid msg)) \<longrightarrow> r = msg # acc) \<and>
          (\<forall>u. parent_message_uuid msg = Some u \<and> u \<noteq> [] \<and> mp u \<noteq> None \<longrightarrow> (\<exists>b. r = b @ msg # acc \<and> spec_branch mp u b))"
          unfolding P_def .
        show ?thesis
        proof (cases "truthy (parent_message_uuid msg)")
          case False
          with ih have "r = msg # acc" by simp
          moreover from False msg have "spec_branch mp u [msg]"
            by (simp add: spec_branch.root is_root_def)
          ultimately show ?thesis by auto
        next
          case t: True
          with True obtain p where p: "parent_message_uuid msg = Some p" "p \<noteq> []" "mp p \<noteq> None"
            by (cases "parent_message_uuid msg") auto
          with ih obtain b where b: "r = b @ msg # acc" "spec_branch mp p b" by auto
          with msg p have "spec_branch mp u (b @ [msg])" by (auto intro: spec_branch.step)
          with b show ?thesis by auto
        qed
      qed
    qed
  qed
  then show ?thesis unfolding P_def .
qed

lemma trace_back_iff_spec_branch:
  assumes "u \<noteq> []" and "mp u \<noteq> None"
  shows "trace_back mp (Some u) [] = Some b \<longleftrightarrow> spec_branch mp u b"
proof
  assume "trace_back mp (Some u) [] = Some b"
  from trace_back_spec_branch_aux [OF this] assms show "spec_branch mp u b" by auto
next
  assume "spec_branch mp u b"
  from spec_branch_trace_back [OF this assms(1), of "[]"] show "trace_back mp (Some u) [] = Some b"
    by simp
qed

lemma spec_branch_nonempty: "spec_branch mp u b \<Longrightarrow> b \<noteq> []"
  by (induction rule: spec_branch.induct) auto

lemma spec_branch_last: "spec_branch mp u b \<Longrightarrow> mp u = Some (last b)"
  by (induction rule: spec_branch.induct) auto

lemma spec_branch_hd: "spec_branch mp u b \<Longrightarrow> is_root mp (hd b)"
  by (induction rule: spec_branch.induct) (auto simp: spec_branch_nonempty)

lemma spec_branch_reachable:
  "spec_branch mp u b \<Longrightarrow> m \<in> set b \<Longrightarrow> \<exists>v. (u, v) \<in> (parent_step mp)\<^sup>* \<and> mp v = Some m"
proof (induction rule: spec_branch.induct)
  case (root u msg)
  then show ?case by auto
next
  case (step u msg p b)
  from step have up: "(u, p) \<in> parent_step mp"
    by (auto simp: parent_step_def dest: spec_branch_resolves)
  show ?case
  proof (cases "m = msg")
    case True
    with step show ?thesis by auto
  next
    case False
    with step obtain v where "(p, v) \<in> (parent_step mp)\<^sup>*" "mp v = Some m" by auto
    with up show ?thesis by (meson converse_rtrancl_into_rtrancl)
  qed
qed

lemma reach_root_spec_branch:
  "(leaf, u) \<in> (parent_step mp)\<^sup>* \<Longrightarrow> mp u = Some msg \<Longrightarrow> is_root mp msg \<Longrightarrow>
   \<exists>b. spec_branch mp leaf b \<and> hd b = msg"
proof (induction rule: converse_rtrancl_induct)
  case base
  then have "spec_branch mp u [msg]" by (rule spec_branch.root)
  then show ?case by force
next
  case (step x y)
  then obtain b where b: "spec_branch mp y b" "hd b = msg" by auto
  from step(1) obtain mx where mx: "mp x = Some mx" "parent_message_uuid mx = Some y" "y \<noteq> []"
    by (auto simp: parent_step_def)
  with b have "spec_branch mp x (b @ [mx])" by (auto intro: spec_branch.step)
  moreover from b have "hd (b @ [mx]) = msg" by (simp add: spec_branch_nonempty)
  ultimately show ?case by blast
qed

lemma finite_parent_edges: "finite (parent_edges msgs)"
proof -
  have "parent_edges msgs \<subseteq> (\<lambda>m. (the (parent_message_uuid m), message.uuid m)) ` set msgs"
    by (force simp: parent_edges_def)
  then show ?thesis by (rule finite_subset) simp
qed

lemma parent_step_edges: "(parent_step (messageMap msgs))\<inverse> \<subseteq> parent_edges msgs"
  by (auto simp: parent_step_def parent_edges_def dest: messageMap_Some)

lemma wf_parent_step:
  assumes "acyclic (parent_edges msgs)"
  shows "wf ((parent_step (messageMap msgs))\<inverse>)"
proof -
  from assms have "wf (parent_edges msgs)"
    by (simp add: finite_acyclic_wf finite_parent_edges)
  then show ?thesis by (rule wf_subset) (rule parent_step_edges)
qed

lemma wf_spec_branch_exists:
  assumes "wf ((parent_step mp)\<inverse>)"
  shows "mp u \<noteq> None \<Longrightarrow> \<exists>b. spec_branch mp u b"
  using assms
proof (induction u rule: wf_induct_rule)
  case (less u)
  then obtain msg where msg: "mp u = Some msg" by auto
  show ?case
  proof (cases "is_root mp msg")
    case True
    with msg show ?thesis by (auto intro: spec_branch.root)
  next
    case False
    then obtain p where p: "parent_message_uuid msg = Some p" "p \<noteq> []" "mp p \<noteq> None"
      by (cases "parent_message_uuid msg") (auto simp: is_root_def)
    with msg have "(p, u) \<in> (parent_step mp)\<inverse>" by (auto simp: parent_step_def)
    with less p obtain b where "spec_branch mp p b" by blast
    with msg p show ?thesis by (auto intro: spec_branch.step)
  qed
qed


lemma getCurrentBranch_resolved:
  assumes "chat_messages data = Some msgs"
    and "current_leaf_message_uuid data = Some leaf" and "leaf \<noteq> []"
  shows "getCurrentBranch data = trace_back (messageMap msgs) (Some leaf) []"
  using assms by (simp add: getCurrentBranch_def)

lemma acyclic_measure:
  fixes f :: "'a \<Rightarrow> nat"
  assumes "\<And>a b. (a, b) \<in> r \<Longrightarrow> f a < f b"
  shows "acyclic r"
proof -
  have "r \<subseteq> measure f" using assms by auto
  then have "wf r" by (rule wf_subset [OF wf_measure])
  then show ?thesis by (rule wf_acyclic)
qed

text \<open>
  Claim C1. When the current-leaf identifier is present and resolves to a message,
  \<open>getCurrentBranch\<close> returns exactly the sequence of the contract: it returns \<open>b\<close>
  if and only if \<open>b\<close> is obtained by starting at the leaf and following parent
  identifiers up to a root. Whatever it returns is not empty, ends with the leaf
  message, starts with a root (a message whose parent identifier is absent or
  unresolvable), and holds only messages reachable from the leaf along parent pointers.
  When the parent pointers of the collection have no cycle, it does return.
\<close>
theorem getCurrentBranch_spec_branch:
  assumes "chat_messages data = Some msgs"
    and "current_leaf_message_uuid data = Some leaf" and "leaf \<noteq> []"
    and "messageMap msgs leaf = Some leaf_msg"
  shows "(\<forall>b. getCurrentBranch data = Some b \<longleftrightarrow> spec_branch (messageMap msgs) leaf b) \<and>
         (\<forall>b. getCurrentBranch data = Some b \<longrightarrow>
             b \<noteq> [] \<and> last b = leaf_msg \<and> is_root (messageMap msgs) (hd b) \<and>
             (\<forall>m \<in> set b. \<exists>v. (leaf, v) \<in> (parent_step (messageMap msgs))\<^sup>* \<and>
                                messageMap msgs v = Some m)) \<and>
         (acyclic (parent_edges msgs) \<longrightarrow> (\<exists>b. getCurrentBranch data = Some b))"
proof -
  let ?mp = "messageMap msgs"
  have eq: "getCurrentBranch data = trace_back ?mp (Some leaf) []"
    using assms by (simp add: getCurrentBranch_resolved)
  have iff: "getCurrentBranch data = Some b \<longleftrightarrow> spec_branch ?mp leaf b" for b
    using assms eq trace_back_iff_spec_branch [of leaf ?mp b] by simp
  have props: "b \<noteq> [] \<and> last b = leaf_msg \<and> is_root ?mp (hd b) \<and>
      (\<forall>m \<in> set b. \<exists>v. (leaf, v) \<in> (parent_step ?mp)\<^sup>* \<and> ?mp v = Some m)"
    if "getCurrentBranch data = Some b" for b
  proof -
    from that iff have sb: "spec_branch ?mp leaf b" by simp
    from sb have "b \<noteq> []" by (rule spec_branch_nonempty)
    moreover from sb assms(4) have "last b = leaf_msg" by (simp add: spec_branch_last)
    moreover from sb have "is_root ?mp (hd b)" by (rule spec_branch_hd)
    moreover from sb have "\<forall>m \<in> set b. \<exists>v. (leaf, v) \<in> (parent_step ?mp)\<^sup>* \<and> ?mp v = Some m"
      by (blast dest: spec_branch_reachable)
    ultimately show ?thesis by blast
  qed
  have total: "\<exists>b. getCurrentBranch data = Some b" if "acyclic (parent_edges msgs)"
  proof -
    from that have "wf ((parent_step ?mp)\<inverse>)" by (rule wf_parent_step)
    with assms(4) obtain b where "spec_branch ?mp leaf b"
      using wf_spec_branch_exists [of ?mp leaf] by auto
    with iff show ?thesis by blast
  qed
  from iff props total show ?thesis by blast
qed

lemma getCurrentBranch_returns:
  assumes "well_formed data"
  shows "\<exists>b. getCurrentBranch data = Some b"
proof (cases "chat_messages data")
  case None
  then show ?thesis by (simp add: getCurrentBranch_def)
next
  case (Some msgs)
  let ?mp = "messageMap msgs"
  show ?thesis
  proof (cases "truthy (current_leaf_message_uuid data) \<and> map_has ?mp (current_leaf_message_uuid data)")
    case False
    then have "trace_back ?mp (current_leaf_message_uuid data) [] = Some []"
      by (rule trace_back_stop)
    with Some show ?thesis by (simp add: getCurrentBranch_def)
  next
    case True
    then obtain leaf where leaf: "current_leaf_message_uuid data = Some leaf" "leaf \<noteq> []" "?mp leaf \<noteq> None"
      by (cases "current_leaf_message_uuid data") auto
    from assms Some have "wf ((parent_step ?mp)\<inverse>)" by (simp add: wf_parent_step well_formed_def)
    with leaf obtain b where "spec_branch ?mp leaf b"
      using wf_spec_branch_exists [of ?mp leaf] by auto
    with leaf have "trace_back ?mp (Some leaf) [] = Some b"
      by (simp add: trace_back_iff_spec_branch)
    with Some leaf show ?thesis by (simp add: getCurrentBranch_resolved)
  qed
qed


text \<open>
  Claim C9. When the parent pointers of the record's messages contain no cycle,
  \<open>getCurrentBranch\<close> terminates: the loop returns a branch.
\<close>
theorem getCurrentBranch_terminates:
  assumes "\<forall>msgs. chat_messages data = Some msgs \<longrightarrow> acyclic (parent_edges msgs)"
  shows "\<exists>b. getCurrentBranch data = Some b"
  using assms by (intro getCurrentBranch_returns) (simp add: well_formed_def)

lemma getCurrentBranch_stored:
  assumes "chat_messages data = Some msgs" and "getCurrentBranch data = Some b"
  shows "set b \<subseteq> set msgs"
proof (cases "truthy (current_leaf_message_uuid data) \<and>
              map_has (messageMap msgs) (current_leaf_message_uuid data)")
  case False
  then have "trace_back (messageMap msgs) (current_leaf_message_uuid data) [] = Some []"
    by (rule trace_back_stop)
  with assms have "b = []" by (simp add: getCurrentBranch_def split: if_splits)
  then show ?thesis by simp
next
  case True
  then obtain leaf where leaf: "current_leaf_message_uuid data = Some leaf" "leaf \<noteq> []"
      "messageMap msgs leaf \<noteq> None"
    by (cases "current_leaf_message_uuid data") auto
  with assms have "trace_back (messageMap msgs) (Some leaf) [] = Some b"
    by (simp add: getCurrentBranch_resolved)
  with leaf have sb: "spec_branch (messageMap msgs) leaf b"
    by (simp add: trace_back_iff_spec_branch)
  show ?thesis
  proof
    fix m assume "m \<in> set b"
    with sb obtain v where "messageMap msgs v = Some m" by (blast dest: spec_branch_reachable)
    then show "m \<in> set msgs" by (simp add: messageMap_Some)
  qed
qed

text \<open>
  Claim C3. \<open>getCurrentBranch\<close> has no failing path. It returns the empty sequence
  when the message collection is missing or empty, or when the current-leaf identifier
  is absent or resolves to no message. When the walk from the leaf reaches a message
  whose parent identifier resolves to no message, it stops there and returns a branch
  that starts with that message and holds stored messages only. Whenever the parent
  pointers have no cycle, dangling or not, it returns a branch of stored messages.
\<close>
theorem getCurrentBranch_graceful:
  "(chat_messages data = None \<or> chat_messages data = Some [] \<or>
    \<not> truthy (current_leaf_message_uuid data) \<or>
    (\<exists>msgs. chat_messages data = Some msgs \<and>
            \<not> map_has (messageMap msgs) (current_leaf_message_uuid data))
    \<longrightarrow> getCurrentBranch data = Some []) \<and>
   (\<forall>msgs leaf u msg p.
      chat_messages data = Some msgs \<and> current_leaf_message_uuid data = Some leaf \<and> leaf \<noteq> [] \<and>
      (leaf, u) \<in> (parent_step (messageMap msgs))\<^sup>* \<and> messageMap msgs u = Some msg \<and>
      parent_message_uuid msg = Some p \<and> messageMap msgs p = None
      \<longrightarrow> (\<exists>b. getCurrentBranch data = Some b \<and> hd b = msg \<and>
               spec_branch (messageMap msgs) leaf b \<and> set b \<subseteq> set msgs)) \<and>
   (\<forall>msgs. chat_messages data = Some msgs \<and> acyclic (parent_edges msgs)
      \<longrightarrow> (\<exists>b. getCurrentBranch data = Some b \<and> set b \<subseteq> set msgs))"
proof (intro conjI impI allI)
  assume deg: "chat_messages data = None \<or> chat_messages data = Some [] \<or>
    \<not> truthy (current_leaf_message_uuid data) \<or>
    (\<exists>msgs. chat_messages data = Some msgs \<and>
            \<not> map_has (messageMap msgs) (current_leaf_message_uuid data))"
  show "getCurrentBranch data = Some []"
  proof (cases "chat_messages data")
    case None
    then show ?thesis by (simp add: getCurrentBranch_def)
  next
    case (Some msgs)
    have "\<not> (truthy (current_leaf_message_uuid data) \<and>
              map_has (messageMap msgs) (current_leaf_message_uuid data))"
    proof (cases "msgs = []")
      case True
      then have "\<not> map_has (messageMap msgs) (current_leaf_message_uuid data)"
        by (cases "current_leaf_message_uuid data") (simp_all add: messageMap_Nil)
      then show ?thesis by simp
    next
      case False
      with deg Some show ?thesis by auto
    qed
    then have "trace_back (messageMap msgs) (current_leaf_message_uuid data) [] = Some []"
      by (rule trace_back_stop)
    with Some show ?thesis by (simp add: getCurrentBranch_def)
  qed
next
  fix msgs leaf u msg p
  assume h: "chat_messages data = Some msgs \<and> current_leaf_message_uuid data = Some leaf \<and> leaf \<noteq> [] \<and>
      (leaf, u) \<in> (parent_step (messageMap msgs))\<^sup>* \<and> messageMap msgs u = Some msg \<and>
      parent_message_uuid msg = Some p \<and> messageMap msgs p = None"
  let ?mp = "messageMap msgs"
  from h have "is_root ?mp msg" by (simp add: is_root_def)
  with h obtain b where b: "spec_branch ?mp leaf b" "hd b = msg"
    using reach_root_spec_branch [of leaf u ?mp msg] by auto
  with h have "trace_back ?mp (Some leaf) [] = Some b"
    using spec_branch_trace_back [of ?mp leaf b "[]"] by simp
  with h have ret: "getCurrentBranch data = Some b" by (simp add: getCurrentBranch_resolved)
  from h have cm: "chat_messages data = Some msgs" by simp
  from cm ret have "set b \<subseteq> set msgs" by (rule getCurrentBranch_stored)
  with ret b show "\<exists>b. getCurrentBranch data = Some b \<and> hd b = msg \<and>
               spec_branch ?mp leaf b \<and> set b \<subseteq> set msgs"
    by blast
next
  fix msgs
  assume h: "chat_messages data = Some msgs \<and> acyclic (parent_edges msgs)"
  then have "well_formed data" by (simp add: well_formed_def)
  then obtain b where "getCurrentBranch data = Some b"
    using getCurrentBranch_returns by blast
  with h show "\<exists>b. getCurrentBranch data = Some b \<and> set b \<subseteq> set msgs"
    using getCurrentBranch_stored by blast
qed

lemma ex_messageMap:
  "messageMap [ex_root, ex_reply, ex_sibling] ''m1'' = Some ex_root"
  "messageMap [ex_root, ex_reply, ex_sibling] ''m2'' = Some ex_reply"
  by (simp_all add: messageMap_def ex_root_def ex_reply_def ex_sibling_def)

lemma ex_acyclic: "acyclic (parent_edges [ex_root, ex_reply, ex_sibling])"
  by (rule acyclic_measure [where f = "\<lambda>u. if u = ''m1'' then 0 else 1"])
     (auto simp: parent_edges_def ex_root_def ex_reply_def ex_sibling_def)

theorem getCurrentBranch_spec_branch_witness:
  "getCurrentBranch ex_conv = Some [ex_root, ex_reply] \<and> (\<exists>b. getCurrentBranch ex_conv = Some b)"
proof -
  let ?msgs = "[ex_root, ex_reply, ex_sibling]"
  have h: "chat_messages ex_conv = Some ?msgs" "current_leaf_message_uuid ex_conv = Some ''m2''"
    "''m2'' \<noteq> []" "messageMap ?msgs ''m2'' = Some ex_reply"
    by (simp_all add: ex_conv_def ex_messageMap)
  note main = getCurrentBranch_spec_branch [OF h]
  have "is_root (messageMap ?msgs) ex_root" by (simp add: is_root_def ex_root_def)
  then have "spec_branch (messageMap ?msgs) ''m1'' [ex_root]"
    by (intro spec_branch.root) (simp add: ex_messageMap)
  then have "spec_branch (messageMap ?msgs) ''m2'' ([ex_root] @ [ex_reply])"
    by (intro spec_branch.step [where p = "''m1''"]) (simp_all add: ex_messageMap, simp add: ex_reply_def)
  with main have 1: "getCurrentBranch ex_conv = Some [ex_root, ex_reply]" by simp
  from main ex_acyclic have 2: "\<exists>b. getCurrentBranch ex_conv = Some b" by blast
  from 1 2 show ?thesis by (intro conjI)
qed

theorem getCurrentBranch_terminates_witness: "\<exists>b. getCurrentBranch ex_conv = Some b"
proof -
  have "\<forall>msgs. chat_messages ex_conv = Some msgs \<longrightarrow> acyclic (parent_edges msgs)"
    using ex_acyclic by (simp add: ex_conv_def)
  then show ?thesis by (rule getCurrentBranch_terminates)
qed

lemma spec_branch_cyclic: "spec_branch (messageMap [ex_loop_a, ex_loop_b]) u b \<Longrightarrow> False"
proof (induction rule: spec_branch.induct)
  case (root u msg)
  then have "msg = ex_loop_a \<or> msg = ex_loop_b" by (auto dest: messageMap_Some)
  with root(2) show ?case
    by (auto simp: is_root_def messageMap_def ex_loop_a_def ex_loop_b_def)
next
  case (step u msg p b)
  then show ?case by simp
qed

lemma getCurrentBranch_cyclic: "getCurrentBranch ex_cyclic = None"
proof (cases "getCurrentBranch ex_cyclic")
  case None
  then show ?thesis .
next
  case (Some b)
  have "messageMap [ex_loop_a, ex_loop_b] ''a'' \<noteq> None"
    by (simp add: messageMap_def ex_loop_a_def ex_loop_b_def)
  with Some have "spec_branch (messageMap [ex_loop_a, ex_loop_b]) ''a'' b"
    using trace_back_iff_spec_branch [of "''a''" "messageMap [ex_loop_a, ex_loop_b]" b]
    by (simp add: getCurrentBranch_def ex_cyclic_def)
  then show ?thesis by (blast dest: spec_branch_cyclic)
qed

lemma ex_dangling_acyclic: "acyclic (parent_edges [ex_orphan, ex_orphan_reply])"
  by (rule acyclic_measure
        [where f = "\<lambda>u. if u = ''gone'' then 0 else if u = ''m4'' then 1 else 2"])
     (auto simp: parent_edges_def ex_orphan_def ex_orphan_reply_def)

theorem getCurrentBranch_graceful_witness:
  "getCurrentBranch ex_empty = Some [] \<and>
   (\<exists>b. getCurrentBranch ex_dangling = Some b \<and> hd b = ex_orphan) \<and>
   acyclic (parent_edges [ex_orphan, ex_orphan_reply]) \<and>
   (\<exists>b. getCurrentBranch ex_dangling = Some b \<and> set b \<subseteq> {ex_orphan, ex_orphan_reply})"
proof -
  let ?msgs = "[ex_orphan, ex_orphan_reply]"
  have "chat_messages ex_empty = Some []" by (simp add: ex_empty_def)
  with getCurrentBranch_graceful [of ex_empty] have 1: "getCurrentBranch ex_empty = Some []"
    by blast
  have mp: "messageMap ?msgs ''m4'' = Some ex_orphan" "messageMap ?msgs ''m5'' = Some ex_orphan_reply"
    "messageMap ?msgs ''gone'' = None"
    by (simp_all add: messageMap_def ex_orphan_def ex_orphan_reply_def)
  have "(''m5'', ''m4'') \<in> parent_step (messageMap ?msgs)"
    unfolding parent_step_def using mp by (simp add: ex_orphan_reply_def)
  then have "(''m5'', ''m4'') \<in> (parent_step (messageMap ?msgs))\<^sup>*" by (rule r_into_rtrancl)
  with mp have "chat_messages ex_dangling = Some ?msgs \<and>
      current_leaf_message_uuid ex_dangling = Some ''m5'' \<and> ''m5'' \<noteq> [] \<and>
      (''m5'', ''m4'') \<in> (parent_step (messageMap ?msgs))\<^sup>* \<and>
      messageMap ?msgs ''m4'' = Some ex_orphan \<and>
      parent_message_uuid ex_orphan = Some ''gone'' \<and> messageMap ?msgs ''gone'' = None"
    by (simp add: ex_dangling_def ex_orphan_def)
  with getCurrentBranch_graceful [of ex_dangling]
  have "\<exists>b. getCurrentBranch ex_dangling = Some b \<and> hd b = ex_orphan \<and>
               spec_branch (messageMap ?msgs) ''m5'' b \<and> set b \<subseteq> set ?msgs"
    by blast
  then have 2: "\<exists>b. getCurrentBranch ex_dangling = Some b \<and> hd b = ex_orphan" by blast
  have "chat_messages ex_dangling = Some ?msgs \<and> acyclic (parent_edges ?msgs)"
    using ex_dangling_acyclic by (simp add: ex_dangling_def)
  with getCurrentBranch_graceful [of ex_dangling]
  have "\<exists>b. getCurrentBranch ex_dangling = Some b \<and> set b \<subseteq> set ?msgs" by blast
  then have 3: "\<exists>b. getCurrentBranch ex_dangling = Some b \<and> set b \<subseteq> {ex_orphan, ex_orphan_reply}"
    by simp
  from 1 2 ex_dangling_acyclic 3 show ?thesis by (intro conjI)
qed


section \<open>Properties of the renderers\<close>

lemma strip_one_shorter:
  "strip_one ws s = Some s' \<Longrightarrow> [] \<notin> set ws \<Longrightarrow> length s' < length s"
proof (induction ws)
  case Nil
  then show ?case by simp
next
  case (Cons w ws)
  show ?case
  proof (cases "take (length w) s = w")
    case True
    with Cons.prems have "s' = drop (length w) s" "w \<noteq> []" by auto
    moreover from True \<open>w \<noteq> []\<close> have "s \<noteq> []" by auto
    ultimately show ?thesis by simp
  next
    case False
    with Cons show ?thesis by simp
  qed
qed

text \<open>
  The bound of \<open>strip_all\<close> is never reached in \<open>trim\<close>: what \<open>trim_start\<close>
  returns starts with no white space, and what \<open>trim_end\<close> returns ends with none.
\<close>

lemma strip_all_done:
  "[] \<notin> set ws \<Longrightarrow> length s \<le> n \<Longrightarrow> strip_one ws (strip_all ws n s) = None"
proof (induction n arbitrary: s)
  case 0
  then have "s = []" by simp
  moreover have "strip_one ws [] = None" using 0(1) by (induction ws) auto
  ultimately show ?case by simp
next
  case (Suc n)
  show ?case
  proof (cases "strip_one ws s")
    case None
    then show ?thesis by simp
  next
    case (Some s')
    with Suc.prems have "length s' < length s" by (simp add: strip_one_shorter)
    with Suc.prems have "length s' \<le> n" by simp
    with Suc.IH [of s'] Suc.prems(1) Some show ?thesis by simp
  qed
qed

lemma trim_start_done: "strip_one white_space (trim_start s) = None"
  unfolding trim_start_def by (rule strip_all_done) (simp_all add: white_space_def)

lemma trim_end_done: "strip_one (map rev white_space) (rev (trim_end s)) = None"
  unfolding trim_end_def rev_rev_ident
  by (rule strip_all_done) (simp_all add: white_space_def)

lemma trim_no_break_space:
  "trim (''Human: hi'' @ [CHR 0xC2, CHR 0xA0] @ ''\<newline>\<newline>'') = ''Human: hi''"
  by (simp add: trim_def trim_start_def trim_end_def white_space_def)

lemma ex_talk_branch: "getCurrentBranch ex_talk = Some
       [ex_msg ''t1'' None ''human'' ''one'',
        ex_msg ''t2'' (Some ''t1'') ''assistant'' ''two'',
        ex_msg ''t3'' (Some ''t2'') ''human'' ''three'',
        ex_msg ''t4'' (Some ''t3'') ''human'' ''four'',
        ex_msg ''t5'' (Some ''t4'') ''assistant'' ''five'']"
  by (simp add: getCurrentBranch_def ex_talk_def trace_back.simps messageMap_def ex_msg_def)

lemma out_text_text_step:
  "out_text (text_step st msg) = out_text st @ senderLabel st msg @ '': '' @ messageText msg @ ''\<newline>\<newline>''"
  by (simp add: text_step_def)

lemma foldl_text_step_out:
  "out_text (foldl text_step st msgs) =
   out_text st @ concat (map (\<lambda>(l, m). l @ '': '' @ messageText m @ ''\<newline>\<newline>'')
                          (zip (labels_from st msgs) msgs))"
  by (induction msgs arbitrary: st) (simp_all add: out_text_text_step)

lemma length_labels_from: "length (labels_from st msgs) = length msgs"
  by (induction msgs arbitrary: st) simp_all

lemma labels_from_nth:
  "i < length msgs \<Longrightarrow>
   labels_from st msgs ! i =
     (if sender (msgs ! i) = Some ''human'' then
        (if humanSeen st \<or> list_ex (\<lambda>m. sender m = Some ''human'') (take i msgs) then ''H'' else ''Human'')
      else
        (if assistantSeen st \<or> list_ex (\<lambda>m. sender m \<noteq> Some ''human'') (take i msgs) then ''A''
         else ''Assistant''))"
proof (induction msgs arbitrary: st i)
  case Nil
  then show ?case by simp
next
  case (Cons msg msgs)
  show ?case
  proof (cases i)
    case 0
    then show ?thesis by (simp add: senderLabel_def)
  next
    case (Suc k)
    with Cons.prems have "k < length msgs" by simp
    from Cons.IH [OF this, of "text_step st msg"] Suc show ?thesis
      by (simp add: text_step_def)
  qed
qed

lemma labels_from_spec:
  "labels_from \<lparr>out_text = t, humanSeen = False, assistantSeen = False\<rparr> msgs =
   map (spec_label msgs) [0..<length msgs]"
  by (rule nth_equalityI) (simp_all add: length_labels_from labels_from_nth spec_label_def)

lemma zip_map_upt:
  "zip (map g [0..<length xs]) xs = map (\<lambda>i. (g i, xs ! i)) [0..<length xs]"
  by (rule nth_equalityI) simp_all

lemma convertToText_branch:
  assumes "getCurrentBranch data = Some b"
  shows "convertToText fmt data meta =
     Some (trim (text_header fmt data meta @
       concat (map (\<lambda>i. spec_label b i @ '': '' @ messageText (b ! i) @ ''\<newline>\<newline>'')
                   [0..<length b])))"
  using assms
  by (simp add: convertToText_def foldl_text_step_out labels_from_spec zip_map_upt comp_def)


text \<open>
  Claim C7. In the text encoding the line of a message starts with its label, and the
  label is the full word (\<open>Human\<close> or \<open>Assistant\<close>) on the first occurrence of the
  sender in the branch and the letter (\<open>H\<close> or \<open>A\<close>) on every later one, the two
  senders tracked apart. For the senders human, assistant, human, human, assistant the
  labels are Human, Assistant, H, H, A.
\<close>
theorem convertToText_labels:
  "(getCurrentBranch data = Some b \<longrightarrow>
      convertToText fmt data meta =
        Some (trim (text_header fmt data meta @
          concat (map (\<lambda>i. spec_label b i @ '': '' @ messageText (b ! i) @ ''\<newline>\<newline>'')
                      [0..<length b])))) \<and>
   (getCurrentBranch data = Some b \<and>
    map sender b = [Some ''human'', Some ''assistant'', Some ''human'', Some ''human'', Some ''assistant'']
    \<longrightarrow>
      convertToText fmt data False =
        Some (trim (''Human: '' @ messageText (b ! 0) @ ''\<newline>\<newline>'' @
                    ''Assistant: '' @ messageText (b ! 1) @ ''\<newline>\<newline>'' @
                    ''H: '' @ messageText (b ! 2) @ ''\<newline>\<newline>'' @
                    ''H: '' @ messageText (b ! 3) @ ''\<newline>\<newline>'' @
                    ''A: '' @ messageText (b ! 4) @ ''\<newline>\<newline>'')))"
proof (intro conjI impI)
  assume "getCurrentBranch data = Some b"
  then show "convertToText fmt data meta =
        Some (trim (text_header fmt data meta @
          concat (map (\<lambda>i. spec_label b i @ '': '' @ messageText (b ! i) @ ''\<newline>\<newline>'')
                      [0..<length b])))"
    by (rule convertToText_branch)
next
  assume h: "getCurrentBranch data = Some b \<and>
    map sender b = [Some ''human'', Some ''assistant'', Some ''human'', Some ''human'', Some ''assistant'']"
  then obtain m0 m1 m2 m3 m4 where b: "b = [m0, m1, m2, m3, m4]"
    and s: "sender m0 = Some ''human''" "sender m1 = Some ''assistant''" "sender m2 = Some ''human''"
      "sender m3 = Some ''human''" "sender m4 = Some ''assistant''"
    by (auto simp: map_eq_Cons_conv)
  have "labels_from \<lparr>out_text = [], humanSeen = False, assistantSeen = False\<rparr> b =
      [''Human'', ''Assistant'', ''H'', ''H'', ''A'']"
    unfolding b using s by (simp add: senderLabel_def text_step_def)
  with h show "convertToText fmt data False =
        Some (trim (''Human: '' @ messageText (b ! 0) @ ''\<newline>\<newline>'' @
                    ''Assistant: '' @ messageText (b ! 1) @ ''\<newline>\<newline>'' @
                    ''H: '' @ messageText (b ! 2) @ ''\<newline>\<newline>'' @
                    ''H: '' @ messageText (b ! 3) @ ''\<newline>\<newline>'' @
                    ''A: '' @ messageText (b ! 4) @ ''\<newline>\<newline>''))"
    by (simp add: convertToText_def text_header_def foldl_text_step_out b del: foldl_Cons)
qed

theorem convertToText_labels_witness:
  "convertToText (\<lambda>d. ''date'') ex_talk False =
     Some (''Human: one\<newline>\<newline>Assistant: two\<newline>\<newline>H: three\<newline>\<newline>H: four\<newline>\<newline>A: five'')"
proof -
  let ?b = "[ex_msg ''t1'' None ''human'' ''one'',
        ex_msg ''t2'' (Some ''t1'') ''assistant'' ''two'',
        ex_msg ''t3'' (Some ''t2'') ''human'' ''three'',
        ex_msg ''t4'' (Some ''t3'') ''human'' ''four'',
        ex_msg ''t5'' (Some ''t4'') ''assistant'' ''five'']"
  have h: "getCurrentBranch ex_talk = Some ?b \<and>
    map sender ?b = [Some ''human'', Some ''assistant'', Some ''human'', Some ''human'', Some ''assistant'']"
    by (simp add: ex_talk_branch) (simp add: ex_msg_def)
  from convertToText_labels [of ex_talk ?b "\<lambda>d. ''date''", THEN conjunct2, THEN mp, OF h]
  have "convertToText (\<lambda>d. ''date'') ex_talk False =
        Some (trim (''Human: '' @ messageText (?b ! 0) @ ''\<newline>\<newline>'' @
                    ''Assistant: '' @ messageText (?b ! 1) @ ''\<newline>\<newline>'' @
                    ''H: '' @ messageText (?b ! 2) @ ''\<newline>\<newline>'' @
                    ''H: '' @ messageText (?b ! 3) @ ''\<newline>\<newline>'' @
                    ''A: '' @ messageText (?b ! 4) @ ''\<newline>\<newline>''))" .
  then show ?thesis
    by (simp add: messageText_def ex_msg_def trim_def trim_start_def trim_end_def white_space_def)
qed

lemma foldl_markdown:
  "foldl (\<lambda>markdown msg. markdown @ f msg) acc msgs = acc @ concat (map f msgs)"
  by (induction msgs arbitrary: acc) simp_all

lemma convertToMarkdown_branch:
  assumes "getCurrentBranch data = Some b"
  shows "convertToMarkdown fmt data meta =
     Some (markdown_header fmt data meta @ concat (map (markdown_message fmt meta) b))"
  using assms by (simp add: convertToMarkdown_def foldl_markdown)

lemma concat_map_split:
  assumes "i < length xs"
  shows "concat (map f xs) =
     concat (map f (take i xs)) @ f (xs ! i) @ concat (map f (drop (Suc i) xs))"
proof -
  from assms have "xs = take i xs @ xs ! i # drop (Suc i) xs" by (rule id_take_nth_drop)
  then have "concat (map f xs) = concat (map f (take i xs @ xs ! i # drop (Suc i) xs))" by simp
  then show ?thesis by simp
qed

lemma upt_split: "i < n \<Longrightarrow> [0..<n] = [0..<i] @ i # [Suc i..<n]"
  by (metis le_add1 less_imp_add_positive less_eq_nat.simps(1) upt_add_eq_append upt_conv_Cons
      plus_nat.add_0)

text \<open>
  Claim C10. A message of the branch whose sender is anything but the string
  \<open>human\<close>, a missing sender included, is rendered as the assistant. In the document of
  \<open>convertToMarkdown\<close> its section, which follows the sections of the earlier messages,
  starts with \<open>**Claude**\<close>. In the document of \<open>convertToText\<close> its line, which follows
  the lines of the earlier messages, has the label \<open>Assistant\<close> when no earlier message
  of the branch has such a sender and \<open>A\<close> otherwise. Both renderers return their
  document whatever the senders are.
\<close>
theorem non_human_sender_is_assistant:
  assumes "getCurrentBranch data = Some b" and "i < length b"
    and "sender (b ! i) \<noteq> Some ''human''"
  shows "(\<exists>rest.
            markdown_message fmt meta (b ! i) = ''**Claude**:\<newline>\<newline>'' @ rest \<and>
            convertToMarkdown fmt data meta =
              Some (markdown_header fmt data meta @
                    concat (map (markdown_message fmt meta) (take i b)) @
                    ''**Claude**:\<newline>\<newline>'' @ rest @
                    concat (map (markdown_message fmt meta) (drop (Suc i) b)))) \<and>
         convertToText fmt data meta =
           Some (trim (text_header fmt data meta @
             concat (map (\<lambda>j. spec_label b j @ '': '' @ messageText (b ! j) @ ''\<newline>\<newline>'') [0..<i]) @
             (if list_ex (\<lambda>m. sender m \<noteq> Some ''human'') (take i b) then ''A'' else ''Assistant'') @
             '': '' @ messageText (b ! i) @ ''\<newline>\<newline>'' @
             concat (map (\<lambda>j. spec_label b j @ '': '' @ messageText (b ! j) @ ''\<newline>\<newline>'')
                         [Suc i..<length b])))"
proof (intro conjI)
  let ?rest = "drop (length ''**Claude**:\<newline>\<newline>'') (markdown_message fmt meta (b ! i))"
  have mm: "markdown_message fmt meta (b ! i) = ''**Claude**:\<newline>\<newline>'' @ ?rest"
    using assms(3) by (simp add: markdown_message_def markdown_sender_def)
  have "convertToMarkdown fmt data meta =
      Some (markdown_header fmt data meta @ concat (map (markdown_message fmt meta) b))"
    using assms(1) by (rule convertToMarkdown_branch)
  also have "concat (map (markdown_message fmt meta) b) =
      concat (map (markdown_message fmt meta) (take i b)) @ markdown_message fmt meta (b ! i) @
      concat (map (markdown_message fmt meta) (drop (Suc i) b))"
    using assms(2) by (rule concat_map_split)
  finally have "convertToMarkdown fmt data meta =
      Some (markdown_header fmt data meta @
            concat (map (markdown_message fmt meta) (take i b)) @
            markdown_message fmt meta (b ! i) @
            concat (map (markdown_message fmt meta) (drop (Suc i) b)))" .
  then have "convertToMarkdown fmt data meta =
      Some (markdown_header fmt data meta @
            concat (map (markdown_message fmt meta) (take i b)) @
            ''**Claude**:\<newline>\<newline>'' @ ?rest @
            concat (map (markdown_message fmt meta) (drop (Suc i) b)))"
    by (subst (asm) mm) simp
  with mm show "\<exists>rest.
            markdown_message fmt meta (b ! i) = ''**Claude**:\<newline>\<newline>'' @ rest \<and>
            convertToMarkdown fmt data meta =
              Some (markdown_header fmt data meta @
                    concat (map (markdown_message fmt meta) (take i b)) @
                    ''**Claude**:\<newline>\<newline>'' @ rest @
                    concat (map (markdown_message fmt meta) (drop (Suc i) b)))"
    by blast
next
  let ?line = "\<lambda>j. spec_label b j @ '': '' @ messageText (b ! j) @ ''\<newline>\<newline>''"
  have lab: "spec_label b i =
      (if list_ex (\<lambda>m. sender m \<noteq> Some ''human'') (take i b) then ''A'' else ''Assistant'')"
    using assms(3) by (simp add: spec_label_def)
  have "[0..<length b] = [0..<i] @ i # [Suc i..<length b]"
    using assms(2) by (rule upt_split)
  then have "concat (map ?line [0..<length b]) =
      concat (map ?line [0..<i]) @ ?line i @ concat (map ?line [Suc i..<length b])"
    by simp
  then have "concat (map ?line [0..<length b]) =
      concat (map ?line [0..<i]) @
      (if list_ex (\<lambda>m. sender m \<noteq> Some ''human'') (take i b) then ''A'' else ''Assistant'') @
      '': '' @ messageText (b ! i) @ ''\<newline>\<newline>'' @ concat (map ?line [Suc i..<length b])"
    by (simp only: lab append_assoc)
  then show "convertToText fmt data meta =
           Some (trim (text_header fmt data meta @
             concat (map ?line [0..<i]) @
             (if list_ex (\<lambda>m. sender m \<noteq> Some ''human'') (take i b) then ''A'' else ''Assistant'') @
             '': '' @ messageText (b ! i) @ ''\<newline>\<newline>'' @
             concat (map ?line [Suc i..<length b])))"
    using convertToText_branch [OF assms(1), of fmt meta] by simp
qed

lemma ex_other_branch: "getCurrentBranch ex_other = Some
       [ex_msg ''s1'' None ''human'' ''ask'',
        ex_msg ''s2'' (Some ''s1'') ''system'' ''note'',
        (ex_msg ''s3'' (Some ''s2'') [] ''more'')\<lparr>sender := None\<rparr>]"
  by (simp add: getCurrentBranch_def ex_other_def trace_back.simps messageMap_def ex_msg_def)

theorem non_human_sender_is_assistant_witness:
  "convertToMarkdown (\<lambda>d. ''date'') ex_other False =
     Some (''# Other\<newline>\<newline>**You**:\<newline>\<newline>ask\<newline>\<newline>---\<newline>\<newline>'' @
           ''**Claude**:\<newline>\<newline>note\<newline>\<newline>---\<newline>\<newline>'' @
           ''**Claude**:\<newline>\<newline>more\<newline>\<newline>---\<newline>\<newline>'') \<and>
   convertToText (\<lambda>d. ''date'') ex_other False =
     Some ''Human: ask\<newline>\<newline>Assistant: note\<newline>\<newline>A: more''"
proof -
  let ?b = "[ex_msg ''s1'' None ''human'' ''ask'',
        ex_msg ''s2'' (Some ''s1'') ''system'' ''note'',
        (ex_msg ''s3'' (Some ''s2'') [] ''more'')\<lparr>sender := None\<rparr>]"
  have i: "(1::nat) < length ?b" by simp
  have s: "sender (?b ! 1) \<noteq> Some ''human''" by (simp add: ex_msg_def)
  note main = non_human_sender_is_assistant [OF ex_other_branch i s, of "\<lambda>d. ''date''" False]
  from main obtain rest where
    r: "markdown_message (\<lambda>d. ''date'') False (?b ! 1) = ''**Claude**:\<newline>\<newline>'' @ rest"
    and md: "convertToMarkdown (\<lambda>d. ''date'') ex_other False =
              Some (markdown_header (\<lambda>d. ''date'') ex_other False @
                    concat (map (markdown_message (\<lambda>d. ''date'') False) (take 1 ?b)) @
                    ''**Claude**:\<newline>\<newline>'' @ rest @
                    concat (map (markdown_message (\<lambda>d. ''date'') False) (drop (Suc 1) ?b)))"
    by (elim conjE exE) (rule that)
  from r have "rest = ''note\<newline>\<newline>---\<newline>\<newline>''"
    by (simp add: markdown_message_def markdown_sender_def ex_msg_def)
  with md have 1: "convertToMarkdown (\<lambda>d. ''date'') ex_other False =
     Some (''# Other\<newline>\<newline>**You**:\<newline>\<newline>ask\<newline>\<newline>---\<newline>\<newline>'' @
           ''**Claude**:\<newline>\<newline>note\<newline>\<newline>---\<newline>\<newline>'' @
           ''**Claude**:\<newline>\<newline>more\<newline>\<newline>---\<newline>\<newline>'')"
    by (simp add: markdown_header_def markdown_message_def markdown_sender_def ex_msg_def ex_other_def)
  from main have "convertToText (\<lambda>d. ''date'') ex_other False =
           Some (trim (text_header (\<lambda>d. ''date'') ex_other False @
             concat (map (\<lambda>j. spec_label ?b j @ '': '' @ messageText (?b ! j) @ ''\<newline>\<newline>'') [0..<1]) @
             (if list_ex (\<lambda>m. sender m \<noteq> Some ''human'') (take 1 ?b) then ''A'' else ''Assistant'') @
             '': '' @ messageText (?b ! 1) @ ''\<newline>\<newline>'' @
             concat (map (\<lambda>j. spec_label ?b j @ '': '' @ messageText (?b ! j) @ ''\<newline>\<newline>'')
                         [Suc 1..<length ?b])))"
    by (rule conjunct2)
  then have 2: "convertToText (\<lambda>d. ''date'') ex_other False =
     Some ''Human: ask\<newline>\<newline>Assistant: note\<newline>\<newline>A: more''"
    by (simp add: text_header_def spec_label_def messageText_def ex_msg_def trim_def trim_start_def trim_end_def white_space_def
        upt_rec [of "Suc 1"] upt_rec [of "Suc (Suc 1)"])
  from 1 2 show ?thesis by (intro conjI)
qed


section \<open>Properties of the batch export\<close>

lemma getCurrentBranch_model_update:
  "getCurrentBranch (raw\<lparr>model := m\<rparr>) = getCurrentBranch raw"
  by (simp add: getCurrentBranch_def split: option.splits)

lemma spec_ext_cases:
  "spec_ext ''markdown'' = ''.md''" "spec_ext ''text'' = ''.txt''"
  "fmt \<noteq> ''markdown'' \<Longrightarrow> fmt \<noteq> ''text'' \<Longrightarrow> spec_ext fmt = ''.json''"
  by (simp_all add: spec_ext_def)

lemma batch_entry_name:
  "batch_entry h job conv raw = Some (fn, doc) \<Longrightarrow> fn = entry_name job conv"
  by (auto simp: batch_entry_def entry_name_def spec_ext_def Let_def split: if_splits option.splits)

lemma batch_entry_returns:
  assumes "renderable job raw"
  shows "\<exists>doc. batch_entry h job conv raw = Some (entry_name job conv, doc)"
proof (cases "export_options.format job = ''markdown'' \<or> export_options.format job = ''text''")
  case False
  then show ?thesis
    by (simp add: batch_entry_def entry_name_def spec_ext_def Let_def)
next
  case True
  with assms have "well_formed raw" by (simp add: renderable_def)
  then obtain b where "getCurrentBranch raw = Some b"
    using getCurrentBranch_returns by blast
  then have "getCurrentBranch (raw\<lparr>model := Some (inferModel raw)\<rparr>) = Some b"
    by (simp add: getCurrentBranch_model_update)
  then show ?thesis
    by (simp add: batch_entry_def entry_name_def spec_ext_def Let_def convertToMarkdown_def convertToText_def)
qed

lemma fetch_ok_iff: "fetch_ok job conv \<longleftrightarrow> (\<exists>raw. fetch job (summary.uuid conv) = Ok raw)"
  by (simp add: fetch_ok_def split: fetch_result.splits)

lemma export_conv_failed:
  "\<not> fetch_ok job conv \<Longrightarrow>
   export_conv h job conv st =
     Some (st\<lparr>failed := failed st + 1,
              failedConversations := failedConversations st @ [name conv]\<rparr>)"
  by (simp add: export_conv_def fetch_ok_def split: fetch_result.splits)

lemma export_conv_ok:
  "fetch job (summary.uuid conv) = Ok raw \<Longrightarrow> batch_entry h job conv raw = Some (fn, doc) \<Longrightarrow>
   export_conv h job conv st =
     Some (st\<lparr>zip_files := zip_file fn doc (zip_files st), completed := completed st + 1\<rparr>)"
  by (simp add: export_conv_def)

lemma batch_entries_Nil: "batch_entries h job [] = []"
  by (simp add: batch_entries_def)

lemma batch_entries_failed:
  "\<not> fetch_ok job conv \<Longrightarrow> batch_entries h job (conv # convs) = batch_entries h job convs"
  by (simp add: batch_entries_def fetch_ok_def split: fetch_result.splits)

lemma batch_entries_ok:
  "fetch job (summary.uuid conv) = Ok raw \<Longrightarrow> batch_entry h job conv raw = Some e \<Longrightarrow>
   batch_entries h job (conv # convs) = e # batch_entries h job convs"
  by (simp add: batch_entries_def)

lemma settle_batch_result:
  assumes "\<forall>c \<in> set xs. \<forall>raw. fetch job (summary.uuid c) = Ok raw \<longrightarrow> renderable job raw"
  shows "settle_batch h job xs st =
     Some (st\<lparr>zip_files := zip_all (zip_files st) (batch_entries h job xs),
              completed := completed st + length (filter (fetch_ok job) xs),
              failed := failed st + length (filter (\<lambda>c. \<not> fetch_ok job c) xs),
              failedConversations :=
                failedConversations st @ map name (filter (\<lambda>c. \<not> fetch_ok job c) xs)\<rparr>)"
  using assms
proof (induction xs arbitrary: st)
  case Nil
  then show ?case by (simp add: batch_entries_Nil zip_all_def)
next
  case (Cons c xs)
  show ?case
  proof (cases "fetch_ok job c")
    case False
    with Cons show ?thesis
      by (simp add: export_conv_failed batch_entries_failed)
  next
    case True
    then obtain raw where raw: "fetch job (summary.uuid c) = Ok raw" by (auto simp: fetch_ok_iff)
    with Cons.prems have "renderable job raw" by simp
    then obtain doc where e: "batch_entry h job c raw = Some (entry_name job c, doc)"
      using batch_entry_returns by blast
    with raw True Cons show ?thesis
      by (simp add: export_conv_ok batch_entries_ok zip_all_def)
  qed
qed

lemma settle_batch_append:
  "settle_batch h job (xs @ ys) st =
     (case settle_batch h job xs st of None \<Rightarrow> None | Some st' \<Rightarrow> settle_batch h job ys st')"
  by (induction xs arbitrary: st) (simp_all split: option.splits)

lemma export_conv_cancelExport:
  "export_conv h job conv st = Some st' \<Longrightarrow> cancelExport st' = cancelExport st"
  by (auto simp: export_conv_def split: fetch_result.splits option.splits)

lemma settle_batch_cancelExport:
  "settle_batch h job xs st = Some st' \<Longrightarrow> cancelExport st' = cancelExport st"
  by (induction xs arbitrary: st) (auto split: option.splits dest: export_conv_cancelExport)

lemma process_batch_cancelExport:
  "process_batch h job xs st = Some st' \<Longrightarrow> cancelExport st' = cancelExport st"
  unfolding process_batch_def by (drule settle_batch_cancelExport) simp

text \<open>Settling does not read the list of the requests.\<close>

lemma export_conv_requests:
  "export_conv h job conv (st\<lparr>requests := r\<rparr>) =
     map_option (\<lambda>st'. st'\<lparr>requests := r\<rparr>) (export_conv h job conv st)"
  by (simp add: export_conv_def split: fetch_result.splits option.splits)

lemma settle_batch_requests:
  "settle_batch h job xs (st\<lparr>requests := r\<rparr>) =
     map_option (\<lambda>st'. st'\<lparr>requests := r\<rparr>) (settle_batch h job xs st)"
proof (induction xs arbitrary: st)
  case Nil
  then show ?case by simp
next
  case (Cons x xs)
  show ?case
  proof (cases "export_conv h job x st")
    case None
    then show ?thesis by (simp add: export_conv_requests)
  next
    case (Some st1)
    with Cons [of st1] show ?thesis by (simp add: export_conv_requests)
  qed
qed

text \<open>The conversations in the order of arrival are the conversations.\<close>

lemma settle_order_set: "set (settle_order job xs) = set xs"
  by (simp add: settle_order_def)

lemma settle_order_filter_length:
  "length (filter P (settle_order job xs)) = length (filter P xs)"
  by (simp add: settle_order_def filter_sort)

lemma arrival_order_Nil: "arrival_order job [] = []"
  by (simp add: arrival_order.simps)

lemma arrival_order_split:
  "xs \<noteq> [] \<Longrightarrow>
   arrival_order job xs =
     settle_order job (take batchSize xs) @ arrival_order job (drop batchSize xs)"
  by (subst arrival_order.simps) simp

lemma arrival_order_set: "set (arrival_order job xs) = set xs"
proof (induction job xs rule: arrival_order.induct)
  case (1 job convs)
  show ?case
  proof (cases "convs = []")
    case True
    then show ?thesis by (simp add: arrival_order_Nil)
  next
    case False
    have "set (take batchSize convs) \<union> set (drop batchSize convs) = set convs"
      by (metis append_take_drop_id set_append)
    with False 1 show ?thesis by (simp add: arrival_order_split settle_order_set)
  qed
qed

lemma arrival_order_filter_length:
  "length (filter P (arrival_order job xs)) = length (filter P xs)"
proof (induction job xs rule: arrival_order.induct)
  case (1 job convs)
  show ?case
  proof (cases "convs = []")
    case True
    then show ?thesis by (simp add: arrival_order_Nil)
  next
    case False
    have "length (filter P (take batchSize convs)) + length (filter P (drop batchSize convs)) =
        length (filter P (take batchSize convs @ drop batchSize convs))"
      by (simp only: filter_append length_append)
    then have "length (filter P (take batchSize convs)) + length (filter P (drop batchSize convs)) =
        length (filter P convs)"
      by simp
    with False 1 show ?thesis by (simp add: arrival_order_split settle_order_filter_length)
  qed
qed

lemma sort_key_same: "sort_key (\<lambda>x. c) xs = xs"
  by (induction xs) (simp_all add: insort_is_Cons)

lemma arrival_order_same_time:
  "(\<forall>u. arrival job u = t) \<Longrightarrow> arrival_order job xs = xs"
proof (induction job xs rule: arrival_order.induct)
  case (1 job convs)
  show ?case
  proof (cases "convs = []")
    case True
    then show ?thesis by (simp add: arrival_order_Nil)
  next
    case False
    from 1(2) have "settle_order job (take batchSize convs) = take batchSize convs"
      by (simp add: settle_order_def sort_key_same)
    with False 1 show ?thesis by (simp add: arrival_order_split)
  qed
qed

text \<open>What the batches of a list do, one after the other.\<close>

lemma run_batches_Nil: "run_batches h job [] st = Some st"
  by (simp add: run_batches_def arrival_order_Nil)

lemma run_batches_split:
  assumes "xs \<noteq> []"
  shows "run_batches h job xs st =
     (case process_batch h job (take batchSize xs) st of
        None \<Rightarrow> None
      | Some st' \<Rightarrow> run_batches h job (drop batchSize xs) st')"
proof -
  let ?A = "take batchSize xs" and ?B = "drop batchSize xs"
  let ?R1 = "requests st @ map summary.uuid ?A"
  let ?R = "requests st @ map summary.uuid xs"
  have R: "?R1 @ map summary.uuid ?B = ?R"
    by (simp flip: map_append)
  show ?thesis
  proof (cases "settle_batch h job (settle_order job ?A) st")
    case None
    then show ?thesis
      using assms
      by (simp add: run_batches_def process_batch_def arrival_order_split settle_batch_append
          settle_batch_requests)
  next
    case (Some s)
    have "run_batches h job xs st = settle_batch h job (arrival_order job ?B) (s\<lparr>requests := ?R\<rparr>)"
      using assms Some
      by (simp add: run_batches_def arrival_order_split settle_batch_append settle_batch_requests)
    moreover have "process_batch h job ?A st = Some (s\<lparr>requests := ?R1\<rparr>)"
      using Some by (simp add: process_batch_def settle_batch_requests)
    moreover have "run_batches h job ?B (s\<lparr>requests := ?R1\<rparr>) =
        settle_batch h job (arrival_order job ?B) (s\<lparr>requests := ?R\<rparr>)"
      unfolding run_batches_def using R by simp
    ultimately show ?thesis by simp
  qed
qed

lemma run_batches_one:
  assumes "length xs \<le> batchSize"
  shows "run_batches h job xs st = process_batch h job xs st"
proof (cases "xs = []")
  case True
  then show ?thesis by (simp add: run_batches_Nil process_batch_def settle_order_def)
next
  case False
  from run_batches_split [OF False, of h job st] assms show ?thesis
    by (simp add: run_batches_Nil split: option.splits)
qed

lemma run_batches_result:
  assumes "\<forall>c \<in> set xs. \<forall>raw. fetch job (summary.uuid c) = Ok raw \<longrightarrow> renderable job raw"
  shows "run_batches h job xs st =
     Some (st\<lparr>requests := requests st @ map summary.uuid xs,
              zip_files := zip_all (zip_files st) (batch_entries h job (arrival_order job xs)),
              completed := completed st + length (filter (fetch_ok job) xs),
              failed := failed st + length (filter (\<lambda>c. \<not> fetch_ok job c) xs),
              failedConversations :=
                failedConversations st @
                map name (filter (\<lambda>c. \<not> fetch_ok job c) (arrival_order job xs))\<rparr>)"
proof -
  from assms have "\<forall>c \<in> set (arrival_order job xs).
      \<forall>raw. fetch job (summary.uuid c) = Ok raw \<longrightarrow> renderable job raw"
    by (simp add: arrival_order_set)
  from settle_batch_result [OF this, of h "st\<lparr>requests := requests st @ map summary.uuid xs\<rparr>"]
  show ?thesis
    by (simp add: run_batches_def arrival_order_filter_length)
qed


lemma batch_slice:
  "take (min (i + batchSize) (length convs) - i) (drop i convs) = take batchSize (drop i convs)"
proof (cases "i + batchSize \<le> length convs")
  case True
  then show ?thesis by (simp add: min_def)
next
  case False
  then show ?thesis by (simp add: min_def)
qed

lemma drop_batch: "take batchSize (drop i convs) @ drop (i + batchSize) convs = drop i convs"
  by (metis append_take_drop_id drop_drop add.commute)

lemma batch_loop_done:
  "\<not> i < length (filteredConversations job) \<or> cancelExport st \<Longrightarrow> batch_loop h job i st = Some st"
  by (subst batch_loop.simps) auto

lemma batch_loop_no_click:
  assumes "cancel_click job = NoClick \<or> cancel_click job = ClickInZip"
  shows "\<not> cancelExport st \<Longrightarrow>
         batch_loop h job i st = run_batches h job (drop i (filteredConversations job)) st"
proof (induction "length (filteredConversations job) - i" arbitrary: i st rule: less_induct)
  case less
  let ?convs = "filteredConversations job"
  show ?case
  proof (cases "i < length ?convs")
    case False
    then show ?thesis by (simp add: batch_loop_done run_batches_Nil)
  next
    case True
    let ?batch = "take batchSize (drop i ?convs)"
    from True have ne: "drop i ?convs \<noteq> []" by simp
    have dd: "drop batchSize (drop i ?convs) = drop (i + batchSize) ?convs"
      by (simp add: add.commute)
    have split: "run_batches h job (drop i ?convs) st =
        (case process_batch h job ?batch st of None \<Rightarrow> None
         | Some st' \<Rightarrow> run_batches h job (drop (i + batchSize) ?convs) st')"
      using run_batches_split [OF ne, of h job st] unfolding dd .
    show ?thesis
    proof (cases "process_batch h job ?batch st")
      case None
      with True less.prems split show ?thesis
        by (subst batch_loop.simps) (simp add: batch_slice)
    next
      case (Some st1)
      then have nc: "\<not> cancelExport st1"
        using less.prems by (simp add: process_batch_cancelExport)
      have "length ?convs - (i + batchSize) < length ?convs - i"
        using True by (simp add: batchSize_def)
      from less.hyps [OF this nc]
      have ih: "batch_loop h job (i + batchSize) st1 =
                run_batches h job (drop (i + batchSize) ?convs) st1" .
      have "batch_loop h job i st = batch_loop h job (i + batchSize) st1"
        using True less.prems Some assms nc
        by (subst batch_loop.simps) (auto simp: batch_slice Let_def)
      with ih split Some show ?thesis by simp
    qed
  qed
qed

lemma batch_loop_click:
  assumes click: "cancel_click job = ClickInBatch k \<or>
      (cancel_click job = ClickInPause k \<and> (k + 1) * batchSize < length (filteredConversations job))"
    and exists: "k * batchSize < length (filteredConversations job)"
  shows "j \<le> k \<Longrightarrow> \<not> cancelExport st \<Longrightarrow>
         batch_loop h job (j * batchSize) st =
           map_option (\<lambda>st'. st'\<lparr>cancelExport := True\<rparr>)
             (run_batches h job
                (take ((k + 1 - j) * batchSize) (drop (j * batchSize) (filteredConversations job))) st)"
proof (induction "k - j" arbitrary: j st)
  case 0
  let ?convs = "filteredConversations job"
  let ?i = "j * batchSize"
  from 0 have jk: "j = k" by simp
  with exists have lt: "?i < length ?convs" by simp
  have idx: "?i div batchSize = k" using jk by (simp add: batchSize_def)
  have one: "(k + 1 - j) * batchSize = batchSize" using jk by simp
  have run: "run_batches h job (take batchSize (drop ?i ?convs)) st =
      process_batch h job (take batchSize (drop ?i ?convs)) st"
    by (rule run_batches_one) simp
  show ?case
    unfolding one run
  proof (cases "process_batch h job (take batchSize (drop ?i ?convs)) st")
    case None
    with lt 0(3) show "batch_loop h job ?i st =
        map_option (\<lambda>st'. st'\<lparr>cancelExport := True\<rparr>)
          (process_batch h job (take batchSize (drop ?i ?convs)) st)"
      by (subst batch_loop.simps) (simp add: batch_slice)
  next
    case (Some st1)
    then have nc: "\<not> cancelExport st1" using 0(3) by (simp add: process_batch_cancelExport)
    have "batch_loop h job ?i st = batch_loop h job (?i + batchSize) (st1\<lparr>cancelExport := True\<rparr>)"
    proof (cases "cancel_click job = ClickInBatch k")
      case True
      with lt 0(3) Some idx show ?thesis
        by (subst batch_loop.simps) (simp add: batch_slice Let_def)
    next
      case False
      with click have p: "cancel_click job = ClickInPause k" "(k + 1) * batchSize < length ?convs"
        by auto
      with jk have "?i + batchSize < length ?convs" by simp
      with lt 0(3) Some idx p nc show ?thesis
        by (subst batch_loop.simps) (simp add: batch_slice Let_def)
    qed
    also have "\<dots> = Some (st1\<lparr>cancelExport := True\<rparr>)"
      by (simp add: batch_loop_done)
    finally show "batch_loop h job ?i st =
        map_option (\<lambda>st'. st'\<lparr>cancelExport := True\<rparr>)
          (process_batch h job (take batchSize (drop ?i ?convs)) st)"
      using Some by simp
  qed
next
  case (Suc d)
  let ?convs = "filteredConversations job"
  let ?i = "j * batchSize"
  let ?rest = "take ((k + 1 - (j + 1)) * batchSize) (drop ((j + 1) * batchSize) ?convs)"
  let ?all = "take ((k + 1 - j) * batchSize) (drop ?i ?convs)"
  from Suc have jk: "j < k" by simp
  with exists have lt: "?i < length ?convs"
    by (meson le_less_trans less_imp_le_nat mult_le_mono1)
  have idx: "?i div batchSize = j" by (simp add: batchSize_def)
  from jk have nb: "cancel_click job \<noteq> ClickInBatch (?i div batchSize)"
    and np: "cancel_click job \<noteq> ClickInPause (?i div batchSize)"
    using click idx by auto
  have cnt: "(k + 1 - j) * batchSize = batchSize + (k + 1 - (j + 1)) * batchSize"
    using jk by (simp add: algebra_simps batchSize_def)
  have d: "drop ((j + 1) * batchSize) ?convs = drop batchSize (drop ?i ?convs)"
    by (simp add: add.commute)
  have ne: "?all \<noteq> []" using lt jk by (simp add: batchSize_def)
  have t: "take batchSize ?all = take batchSize (drop ?i ?convs)"
    unfolding cnt by (simp add: min_def)
  have r: "drop batchSize ?all = ?rest"
    unfolding cnt d by (simp add: drop_take)
  have pb: "run_batches h job ?all st =
      (case process_batch h job (take batchSize (drop ?i ?convs)) st of
         None \<Rightarrow> None | Some st' \<Rightarrow> run_batches h job ?rest st')"
    using run_batches_split [OF ne, of h job st] unfolding t r .
  show ?case
    unfolding pb
  proof (cases "process_batch h job (take batchSize (drop ?i ?convs)) st")
    case None
    with lt Suc.prems show "batch_loop h job ?i st =
        map_option (\<lambda>st'. st'\<lparr>cancelExport := True\<rparr>)
          (case process_batch h job (take batchSize (drop ?i ?convs)) st of
             None \<Rightarrow> None | Some st' \<Rightarrow> run_batches h job ?rest st')"
      by (subst batch_loop.simps) (simp add: batch_slice)
  next
    case (Some st1)
    then have nc: "\<not> cancelExport st1" using Suc.prems by (simp add: process_batch_cancelExport)
    have "batch_loop h job ?i st = batch_loop h job (?i + batchSize) st1"
      using lt Suc.prems Some nb np
      by (subst batch_loop.simps) (simp add: batch_slice Let_def)
    also have "?i + batchSize = (j + 1) * batchSize" by simp
    also have "batch_loop h job ((j + 1) * batchSize) st1 =
        map_option (\<lambda>st'. st'\<lparr>cancelExport := True\<rparr>) (run_batches h job ?rest st1)"
      using Suc.hyps(2) jk nc by (intro Suc.hyps(1)) simp_all
    finally show "batch_loop h job ?i st =
        map_option (\<lambda>st'. st'\<lparr>cancelExport := True\<rparr>)
          (case process_batch h job (take batchSize (drop ?i ?convs)) st of
             None \<Rightarrow> None | Some st' \<Rightarrow> run_batches h job ?rest st')"
      by (simp only: Some option.case)
  qed
qed

lemma map_of_zip_file: "map_of (zip_file k v z) = (map_of z)(k \<mapsto> v)"
  by (induction z) (auto simp: fun_eq_iff)

lemma keys_zip_file: "fst ` set (zip_file k v z) = insert k (fst ` set z)"
proof (induction z)
  case Nil
  then show ?case by simp
next
  case (Cons e z)
  then show ?case by (cases e) (simp add: insert_commute)
qed

lemma zip_file_mem: "(k, v) \<in> set (zip_file k v z)"
  by (induction z) auto

lemma zip_file_keeps: "(k', v') \<in> set z \<Longrightarrow> k' \<noteq> k \<Longrightarrow> (k', v') \<in> set (zip_file k v z)"
  by (induction z) auto

lemma zip_file_from: "(k', v') \<in> set (zip_file k v z) \<Longrightarrow> (k', v') = (k, v) \<or> (k', v') \<in> set z"
  by (induction z) (auto split: if_splits)

lemma zip_all_Nil: "zip_all z [] = z"
  by (simp add: zip_all_def)

lemma zip_all_Cons: "zip_all z (e # es) = zip_all (zip_file (fst e) (snd e) z) es"
  by (simp add: zip_all_def)

lemma keys_zip_all: "fst ` set (zip_all z es) = fst ` set z \<union> fst ` set es"
  by (induction es arbitrary: z) (auto simp: zip_all_Nil zip_all_Cons keys_zip_file)

lemma zip_all_from: "e \<in> set (zip_all z es) \<Longrightarrow> e \<in> set z \<or> e \<in> set es"
proof (induction es arbitrary: z)
  case Nil
  then show ?case by (simp add: zip_all_Nil)
next
  case (Cons x es)
  then have "e \<in> set (zip_file (fst x) (snd x) z) \<or> e \<in> set es" by (simp add: zip_all_Cons)
  then show ?case using zip_file_from [of "fst e" "snd e" "fst x" "snd x" z] by auto
qed

lemma zip_all_keeps: "e \<in> set z \<Longrightarrow> fst e \<notin> fst ` set es \<Longrightarrow> e \<in> set (zip_all z es)"
proof (induction es arbitrary: z)
  case Nil
  then show ?case by (simp add: zip_all_Nil)
next
  case (Cons x es)
  from Cons.prems have "e \<in> set (zip_file (fst x) (snd x) z)"
    using zip_file_keeps [of "fst e" "snd e" z "fst x" "snd x"] by auto
  with Cons show ?case by (simp add: zip_all_Cons)
qed

lemma zip_all_unique:
  "e \<in> set z \<or> e \<in> set es \<Longrightarrow> \<forall>e' \<in> set es. fst e' = fst e \<longrightarrow> e' = e \<Longrightarrow>
   e \<in> set (zip_all z es)"
proof (induction es arbitrary: z)
  case Nil
  then show ?case by (simp add: zip_all_Nil)
next
  case (Cons x es)
  have "e \<in> set (zip_file (fst x) (snd x) z) \<or> e \<in> set es"
  proof (cases "e = x")
    case True
    then show ?thesis using zip_file_mem [of "fst x" "snd x" z] by simp
  next
    case False
    show ?thesis
    proof (cases "e \<in> set z")
      case True
      from Cons.prems(2) False have "fst x \<noteq> fst e" by auto
      with True show ?thesis
        using zip_file_keeps [of "fst e" "snd e" z "fst x" "snd x"] by auto
    next
      case False
      with Cons.prems(1) \<open>e \<noteq> x\<close> show ?thesis by simp
    qed
  qed
  moreover from Cons.prems(2) have "\<forall>e' \<in> set es. fst e' = fst e \<longrightarrow> e' = e" by simp
  ultimately show ?case by (simp add: zip_all_Cons Cons.IH)
qed

lemma batch_entries_names:
  assumes "\<forall>c \<in> set convs. \<forall>raw. fetch job (summary.uuid c) = Ok raw \<longrightarrow> renderable job raw"
  shows "map fst (batch_entries h job convs) = map (entry_name job) (filter (fetch_ok job) convs)"
  using assms
proof (induction convs)
  case Nil
  then show ?case by (simp add: batch_entries_Nil)
next
  case (Cons c convs)
  show ?case
  proof (cases "fetch_ok job c")
    case False
    with Cons show ?thesis by (simp add: batch_entries_failed)
  next
    case True
    then obtain raw where raw: "fetch job (summary.uuid c) = Ok raw" by (auto simp: fetch_ok_iff)
    with Cons.prems have "renderable job raw" by simp
    then obtain doc where "batch_entry h job c raw = Some (entry_name job c, doc)"
      using batch_entry_returns by blast
    with raw True Cons show ?thesis by (simp add: batch_entries_ok)
  qed
qed

lemma batch_entries_Cons:
  "batch_entries h job (c # convs) =
     (case (case fetch job (summary.uuid c) of Ok raw \<Rightarrow> batch_entry h job c raw | _ \<Rightarrow> None) of
        None \<Rightarrow> batch_entries h job convs
      | Some e \<Rightarrow> e # batch_entries h job convs)"
  unfolding batch_entries_def by (simp split: option.splits)

lemma batch_entries_from:
  "e \<in> set (batch_entries h job convs) \<Longrightarrow>
   \<exists>c \<in> set convs. \<exists>raw. fetch job (summary.uuid c) = Ok raw \<and> batch_entry h job c raw = Some e"
proof (induction convs)
  case Nil
  then show ?case by (simp add: batch_entries_Nil)
next
  case (Cons c convs)
  then show ?case
    by (auto simp: batch_entries_Cons split: option.splits fetch_result.splits)
qed

lemma batch_entries_mem:
  "c \<in> set convs \<Longrightarrow> fetch job (summary.uuid c) = Ok raw \<Longrightarrow> batch_entry h job c raw = Some e \<Longrightarrow>
   e \<in> set (batch_entries h job convs)"
proof (induction convs)
  case Nil
  then show ?case by simp
next
  case (Cons x convs)
  then show ?case
    by (auto simp: batch_entries_Cons split: option.splits fetch_result.splits)
qed

lemma ex_conv_well_formed: "well_formed ex_conv"
  using ex_acyclic by (simp add: well_formed_def ex_conv_def)

lemma ex_conv_text: "convertToText fmt (ex_conv\<lparr>model := m\<rparr>) False = Some ''Human: hi\<newline>\<newline>Assistant: hello''"
  by (simp add: convertToText_def getCurrentBranch_def ex_conv_def trace_back.simps messageMap_def
      ex_root_def ex_reply_def ex_sibling_def text_header_def text_step_def senderLabel_def
      messageText_def trim_def trim_start_def trim_end_def white_space_def)

lemma ex_talk_text:
  "convertToText fmt (ex_talk\<lparr>model := m\<rparr>) False =
     Some ''Human: one\<newline>\<newline>Assistant: two\<newline>\<newline>H: three\<newline>\<newline>H: four\<newline>\<newline>A: five''"
  by (simp add: convertToText_def getCurrentBranch_def ex_talk_def trace_back.simps messageMap_def
      ex_msg_def text_header_def text_step_def senderLabel_def
      messageText_def trim_def trim_start_def trim_end_def white_space_def)

lemma ex_summary_sel: "summary.uuid (ex_summary u n) = u" "name (ex_summary u n) = n"
  by (simp_all add: ex_summary_def)

lemma safeName_plain: "safeName ''Chat'' = ''Chat''"
  by (simp add: safeName_def invalid_filename_chars_def)

lemma ex_same_name_first:
  "batch_entry ex_host (ex_job_same_name\<lparr>arrival := t\<rparr>) (ex_summary ''u1'' ''Chat'') ex_conv =
     Some (''Chat.txt'', Text ''Human: hi\<newline>\<newline>Assistant: hello'')"
  by (simp add: batch_entry_def Let_def ex_job_same_name_def ex_summary_sel ex_conv_text safeName_plain)

lemma ex_same_name_second:
  "batch_entry ex_host (ex_job_same_name\<lparr>arrival := t\<rparr>) (ex_summary ''u2'' ''Chat'') ex_talk =
     Some (''Chat.txt'',
       Text ''Human: one\<newline>\<newline>Assistant: two\<newline>\<newline>H: three\<newline>\<newline>H: four\<newline>\<newline>A: five'')"
  by (simp add: batch_entry_def Let_def ex_job_same_name_def ex_summary_sel ex_talk_text safeName_plain)

lemma ex_same_name_export:
  "exportAllFiltered ex_host (ex_job_same_name\<lparr>arrival := t\<rparr>) =
     Some \<lparr>outcome = Exported
            [(''Chat.txt'',
              if t ''u1'' \<le> t ''u2''
              then Text ''Human: one\<newline>\<newline>Assistant: two\<newline>\<newline>H: three\<newline>\<newline>H: four\<newline>\<newline>A: five''
              else Text ''Human: hi\<newline>\<newline>Assistant: hello''),
             (''export_summary.json'',
              JsonText (Inr \<lparr>export_date = ''2025-01-01T00:00:00.000Z'', total_conversations = 2,
                 successful_exports = 2, failed_exports = 0, failed_conversations = [],
                 export_summary.format = ''text'', include_metadata = False\<rparr>))],
           issued = [''u1'', ''u2''], flag_at_end = False\<rparr>"
proof -
  let ?job = "ex_job_same_name\<lparr>arrival := t\<rparr>"
  let ?c1 = "ex_summary ''u1'' ''Chat''" and ?c2 = "ex_summary ''u2'' ''Chat''"
  let ?doc = "if t ''u1'' \<le> t ''u2''
      then Text ''Human: one\<newline>\<newline>Assistant: two\<newline>\<newline>H: three\<newline>\<newline>H: four\<newline>\<newline>A: five''
      else Text ''Human: hi\<newline>\<newline>Assistant: hello''"
  have f1: "fetch ?job (summary.uuid ?c1) = Ok ex_conv"
    and f2: "fetch ?job (summary.uuid ?c2) = Ok ex_talk"
    by (simp_all add: ex_job_same_name_def ex_summary_sel)
  have convs: "filteredConversations ?job = [?c1, ?c2]"
    by (simp add: ex_job_same_name_def)
  have order: "settle_order ?job [?c1, ?c2] = (if t ''u1'' \<le> t ''u2'' then [?c1, ?c2] else [?c2, ?c1])"
    by (simp add: settle_order_def ex_summary_sel)
  have "batch_loop ex_host ?job 0 initial_state =
      run_batches ex_host ?job (drop 0 (filteredConversations ?job)) initial_state"
    by (rule batch_loop_no_click) (simp_all add: ex_job_same_name_def initial_state_def)
  also have "\<dots> = process_batch ex_host ?job [?c1, ?c2] initial_state"
    unfolding convs drop_0 by (rule run_batches_one) (simp add: batchSize_def)
  also have "\<dots> = Some (initial_state
      \<lparr>requests := [''u1'', ''u2''], zip_files := [(''Chat.txt'', ?doc)], completed := 2\<rparr>)"
    unfolding process_batch_def order
    by (simp add: export_conv_ok [OF f1 ex_same_name_first] export_conv_ok [OF f2 ex_same_name_second]
          initial_state_def ex_summary_sel)
  finally have "batch_loop ex_host ?job 0 initial_state = Some (initial_state
      \<lparr>requests := [''u1'', ''u2''], zip_files := [(''Chat.txt'', ?doc)], completed := 2\<rparr>)" .
  then show ?thesis
    by (simp add: exportAllFiltered_def initial_state_def ex_host_def ex_job_same_name_def)
qed

text \<open>
  Claim C4. A batch export that is not cancelled is to produce an archive that
  contains every successful output. Two conversations of the same name are stored
  under the same entry name: both are fetched and rendered and counted as exported,
  the summary reports two successful exports, and the archive holds one of the two
  outputs only, that of the conversation whose answer arrives last: the output of the
  second conversation when the answers arrive in the order of the requests, and the
  output of the first when they arrive in the other order. The other output is not
  in the archive.
\<close>
theorem same_name_output_lost:
  "exportAllFiltered ex_host ex_job_same_name =
     Some \<lparr>outcome = Exported
            [(''Chat.txt'',
              Text ''Human: one\<newline>\<newline>Assistant: two\<newline>\<newline>H: three\<newline>\<newline>H: four\<newline>\<newline>A: five''),
             (''export_summary.json'',
              JsonText (Inr \<lparr>export_date = ''2025-01-01T00:00:00.000Z'', total_conversations = 2,
                 successful_exports = 2, failed_exports = 0, failed_conversations = [],
                 export_summary.format = ''text'', include_metadata = False\<rparr>))],
           issued = [''u1'', ''u2''], flag_at_end = False\<rparr> \<and>
   fetch ex_job_same_name ''u1'' = Ok ex_conv \<and>
   batch_entry ex_host ex_job_same_name (ex_summary ''u1'' ''Chat'') ex_conv =
     Some (''Chat.txt'', Text ''Human: hi\<newline>\<newline>Assistant: hello'') \<and>
   (''Chat.txt'', Text ''Human: hi\<newline>\<newline>Assistant: hello'') \<notin>
     set [(''Chat.txt'',
           Text ''Human: one\<newline>\<newline>Assistant: two\<newline>\<newline>H: three\<newline>\<newline>H: four\<newline>\<newline>A: five''),
          (''export_summary.json'',
           JsonText (Inr \<lparr>export_date = ''2025-01-01T00:00:00.000Z'', total_conversations = 2,
              successful_exports = 2, failed_exports = 0, failed_conversations = [],
              export_summary.format = ''text'', include_metadata = False\<rparr>))] \<and>
   exportAllFiltered ex_host (ex_job_same_name\<lparr>arrival := (\<lambda>u. if u = ''u1'' then 1 else 0)\<rparr>) =
     Some \<lparr>outcome = Exported
            [(''Chat.txt'', Text ''Human: hi\<newline>\<newline>Assistant: hello''),
             (''export_summary.json'',
              JsonText (Inr \<lparr>export_date = ''2025-01-01T00:00:00.000Z'', total_conversations = 2,
                 successful_exports = 2, failed_exports = 0, failed_conversations = [],
                 export_summary.format = ''text'', include_metadata = False\<rparr>))],
           issued = [''u1'', ''u2''], flag_at_end = False\<rparr> \<and>
   fetch ex_job_same_name ''u2'' = Ok ex_talk \<and>
   batch_entry ex_host ex_job_same_name (ex_summary ''u2'' ''Chat'') ex_talk =
     Some (''Chat.txt'',
       Text ''Human: one\<newline>\<newline>Assistant: two\<newline>\<newline>H: three\<newline>\<newline>H: four\<newline>\<newline>A: five'') \<and>
   (''Chat.txt'',
    Text ''Human: one\<newline>\<newline>Assistant: two\<newline>\<newline>H: three\<newline>\<newline>H: four\<newline>\<newline>A: five'') \<notin>
     set [(''Chat.txt'', Text ''Human: hi\<newline>\<newline>Assistant: hello''),
          (''export_summary.json'',
           JsonText (Inr \<lparr>export_date = ''2025-01-01T00:00:00.000Z'', total_conversations = 2,
              successful_exports = 2, failed_exports = 0, failed_conversations = [],
              export_summary.format = ''text'', include_metadata = False\<rparr>))]"
proof -
  have same: "ex_job_same_name\<lparr>arrival := (\<lambda>u. 0)\<rparr> = ex_job_same_name"
    by (simp add: ex_job_same_name_def)
  from ex_same_name_export [of "\<lambda>u. 0"]
  have 1: "exportAllFiltered ex_host ex_job_same_name =
     Some \<lparr>outcome = Exported
            [(''Chat.txt'',
              Text ''Human: one\<newline>\<newline>Assistant: two\<newline>\<newline>H: three\<newline>\<newline>H: four\<newline>\<newline>A: five''),
             (''export_summary.json'',
              JsonText (Inr \<lparr>export_date = ''2025-01-01T00:00:00.000Z'', total_conversations = 2,
                 successful_exports = 2, failed_exports = 0, failed_conversations = [],
                 export_summary.format = ''text'', include_metadata = False\<rparr>))],
           issued = [''u1'', ''u2''], flag_at_end = False\<rparr>"
    unfolding same by simp
  have 2: "fetch ex_job_same_name ''u1'' = Ok ex_conv"
    by (simp add: ex_job_same_name_def)
  from ex_same_name_first [of "\<lambda>u. 0"]
  have 3: "batch_entry ex_host ex_job_same_name (ex_summary ''u1'' ''Chat'') ex_conv =
     Some (''Chat.txt'', Text ''Human: hi\<newline>\<newline>Assistant: hello'')"
    unfolding same .
  have 4: "(''Chat.txt'', Text ''Human: hi\<newline>\<newline>Assistant: hello'') \<notin>
     set [(''Chat.txt'',
           Text ''Human: one\<newline>\<newline>Assistant: two\<newline>\<newline>H: three\<newline>\<newline>H: four\<newline>\<newline>A: five''),
          (''export_summary.json'',
           JsonText (Inr \<lparr>export_date = ''2025-01-01T00:00:00.000Z'', total_conversations = 2,
              successful_exports = 2, failed_exports = 0, failed_conversations = [],
              export_summary.format = ''text'', include_metadata = False\<rparr>))]"
    by simp
  from ex_same_name_export [of "\<lambda>u. if u = ''u1'' then 1 else 0"]
  have 5: "exportAllFiltered ex_host (ex_job_same_name\<lparr>arrival := (\<lambda>u. if u = ''u1'' then 1 else 0)\<rparr>) =
     Some \<lparr>outcome = Exported
            [(''Chat.txt'', Text ''Human: hi\<newline>\<newline>Assistant: hello''),
             (''export_summary.json'',
              JsonText (Inr \<lparr>export_date = ''2025-01-01T00:00:00.000Z'', total_conversations = 2,
                 successful_exports = 2, failed_exports = 0, failed_conversations = [],
                 export_summary.format = ''text'', include_metadata = False\<rparr>))],
           issued = [''u1'', ''u2''], flag_at_end = False\<rparr>"
    by simp
  have 6: "fetch ex_job_same_name ''u2'' = Ok ex_talk"
    by (simp add: ex_job_same_name_def)
  from ex_same_name_second [of "\<lambda>u. 0"]
  have 7: "batch_entry ex_host ex_job_same_name (ex_summary ''u2'' ''Chat'') ex_talk =
     Some (''Chat.txt'',
       Text ''Human: one\<newline>\<newline>Assistant: two\<newline>\<newline>H: three\<newline>\<newline>H: four\<newline>\<newline>A: five'')"
    unfolding same .
  have 8: "(''Chat.txt'',
    Text ''Human: one\<newline>\<newline>Assistant: two\<newline>\<newline>H: three\<newline>\<newline>H: four\<newline>\<newline>A: five'') \<notin>
     set [(''Chat.txt'', Text ''Human: hi\<newline>\<newline>Assistant: hello''),
          (''export_summary.json'',
           JsonText (Inr \<lparr>export_date = ''2025-01-01T00:00:00.000Z'', total_conversations = 2,
              successful_exports = 2, failed_exports = 0, failed_conversations = [],
              export_summary.format = ''text'', include_metadata = False\<rparr>))]"
    by simp
  from 1 2 3 4 5 6 7 8 show ?thesis by (intro conjI)
qed

lemma batch_loop_all:
  assumes "cancel_click job = NoClick \<or> cancel_click job = ClickInZip"
    and "\<forall>c \<in> set (filteredConversations job). \<forall>raw. fetch job (summary.uuid c) = Ok raw \<longrightarrow> renderable job raw"
  shows "batch_loop h job 0 initial_state =
     Some (initial_state
       \<lparr>requests := map summary.uuid (filteredConversations job),
        zip_files :=
          zip_all [] (batch_entries h job (arrival_order job (filteredConversations job))),
        completed := length (filter (fetch_ok job) (filteredConversations job)),
        failed := length (filter (\<lambda>c. \<not> fetch_ok job c) (filteredConversations job)),
        failedConversations :=
          map name (filter (\<lambda>c. \<not> fetch_ok job c)
                      (arrival_order job (filteredConversations job)))\<rparr>)"
proof -
  have "batch_loop h job 0 initial_state =
      run_batches h job (drop 0 (filteredConversations job)) initial_state"
    using assms(1) by (rule batch_loop_no_click) (simp add: initial_state_def)
  also have "\<dots> = run_batches h job (filteredConversations job) initial_state" by simp
  finally show ?thesis
    using run_batches_result [OF assms(2), of h initial_state]
    by (simp add: initial_state_def)
qed

text \<open>
  What a batch export that is not cancelled does. A conversation whose fetch fails is
  caught: the failure counter goes up by one and its name is appended to the list of
  failures, and the export goes on. With renderable records the job completes after
  every conversation has been requested, and its archive holds \<open>export_summary.json\<close>
  with the totals and the failed names, these in the order in which the failures
  arrive, and one entry under the stored name of every conversation that succeeded,
  each entry being the output of such a conversation. When the stored names of the
  conversations that succeeded are distinct and none is \<open>export_summary.json\<close>, every
  output is in the archive.
\<close>
theorem batch_export_partial_failure:
  assumes "cancel_click job = NoClick"
    and "\<forall>c \<in> set (filteredConversations job).
           \<forall>raw. fetch job (summary.uuid c) = Ok raw \<longrightarrow> renderable job raw"
  shows "(\<forall>c st. \<not> fetch_ok job c \<longrightarrow>
            export_conv h job c st =
              Some (st\<lparr>failed := failed st + 1,
                       failedConversations := failedConversations st @ [name c]\<rparr>)) \<and>
         (\<exists>arch.
            exportAllFiltered h job =
              Some \<lparr>outcome = Exported arch,
                    issued = map summary.uuid (filteredConversations job),
                    flag_at_end = False\<rparr> \<and>
            map_of arch ''export_summary.json'' =
              Some (JsonText (stringify_summary h
                \<lparr>export_date = now job,
                 total_conversations = length (filteredConversations job),
                 successful_exports = length (filter (fetch_ok job) (filteredConversations job)),
                 failed_exports = length (filter (\<lambda>c. \<not> fetch_ok job c) (filteredConversations job)),
                 failed_conversations =
                   map name (filter (\<lambda>c. \<not> fetch_ok job c)
                               (arrival_order job (filteredConversations job))),
                 export_summary.format = export_options.format job,
                 include_metadata = includeMetadata job\<rparr>)) \<and>
            fst ` set arch =
              insert ''export_summary.json''
                (entry_name job ` {c \<in> set (filteredConversations job). fetch_ok job c}) \<and>
            (\<forall>fn doc. (fn, doc) \<in> set arch \<and> fn \<noteq> ''export_summary.json'' \<longrightarrow>
               (\<exists>c \<in> set (filteredConversations job). \<exists>raw.
                  fetch job (summary.uuid c) = Ok raw \<and> batch_entry h job c raw = Some (fn, doc))) \<and>
            (distinct (map (entry_name job) (filter (fetch_ok job) (filteredConversations job))) \<and>
             ''export_summary.json'' \<notin>
               entry_name job ` {c \<in> set (filteredConversations job). fetch_ok job c} \<longrightarrow>
               (\<forall>c \<in> set (filteredConversations job). \<forall>raw.
                  fetch job (summary.uuid c) = Ok raw \<longrightarrow>
                  (\<exists>doc. batch_entry h job c raw = Some (entry_name job c, doc) \<and>
                         (entry_name job c, doc) \<in> set arch))))"
proof -
  let ?convs = "filteredConversations job"
  let ?order = "arrival_order job ?convs"
  let ?es = "batch_entries h job ?order"
  let ?S = "''export_summary.json''"
  let ?sdoc = "JsonText (stringify_summary h
                \<lparr>export_date = now job,
                 total_conversations = length ?convs,
                 successful_exports = length (filter (fetch_ok job) ?convs),
                 failed_exports = length (filter (\<lambda>c. \<not> fetch_ok job c) ?convs),
                 failed_conversations = map name (filter (\<lambda>c. \<not> fetch_ok job c) ?order),
                 export_summary.format = export_options.format job,
                 include_metadata = includeMetadata job\<rparr>)"
  let ?arch = "zip_file ?S ?sdoc (zip_all [] ?es)"
  have order: "set ?order = set ?convs" by (rule arrival_order_set)
  from assms(2) have rend: "\<forall>c \<in> set ?order.
      \<forall>raw. fetch job (summary.uuid c) = Ok raw \<longrightarrow> renderable job raw"
    by (simp add: order)
  have caught: "\<forall>c st. \<not> fetch_ok job c \<longrightarrow>
            export_conv h job c st =
              Some (st\<lparr>failed := failed st + 1,
                       failedConversations := failedConversations st @ [name c]\<rparr>)"
    by (simp add: export_conv_failed)
  have loop: "batch_loop h job 0 initial_state =
     Some (initial_state
       \<lparr>requests := map summary.uuid ?convs,
        zip_files := zip_all [] ?es,
        completed := length (filter (fetch_ok job) ?convs),
        failed := length (filter (\<lambda>c. \<not> fetch_ok job c) ?convs),
        failedConversations := map name (filter (\<lambda>c. \<not> fetch_ok job c) ?order)\<rparr>)"
    using assms by (intro batch_loop_all) simp_all
  have result: "exportAllFiltered h job =
      Some \<lparr>outcome = Exported ?arch, issued = map summary.uuid ?convs, flag_at_end = False\<rparr>"
    using assms(1) by (simp add: exportAllFiltered_def loop) (simp add: initial_state_def)
  have summary: "map_of ?arch ?S = Some ?sdoc"
    by (simp add: map_of_zip_file)
  have names: "map fst ?es = map (entry_name job) (filter (fetch_ok job) ?order)"
    using rend by (rule batch_entries_names)
  then have "set (map fst ?es) = set (map (entry_name job) (filter (fetch_ok job) ?order))"
    by simp
  then have key_set: "fst ` set ?es = entry_name job ` {c \<in> set ?convs. fetch_ok job c}"
    by (simp add: order)
  have keys: "fst ` set ?arch = insert ?S (entry_name job ` {c \<in> set ?convs. fetch_ok job c})"
    by (simp add: keys_zip_file keys_zip_all key_set)
  have from_conv: "\<forall>fn doc. (fn, doc) \<in> set ?arch \<and> fn \<noteq> ?S \<longrightarrow>
               (\<exists>c \<in> set ?convs. \<exists>raw.
                  fetch job (summary.uuid c) = Ok raw \<and> batch_entry h job c raw = Some (fn, doc))"
  proof (intro allI impI)
    fix fn doc assume a: "(fn, doc) \<in> set ?arch \<and> fn \<noteq> ?S"
    then have "(fn, doc) \<in> set (zip_all [] ?es)"
      using zip_file_from [of fn doc ?S ?sdoc "zip_all [] ?es"] by auto
    then have "(fn, doc) \<in> set ?es" using zip_all_from [of "(fn, doc)" "[]" ?es] by simp
    then have "\<exists>c \<in> set ?order. \<exists>raw.
                  fetch job (summary.uuid c) = Ok raw \<and> batch_entry h job c raw = Some (fn, doc)"
      by (rule batch_entries_from)
    then show "\<exists>c \<in> set ?convs. \<exists>raw.
                  fetch job (summary.uuid c) = Ok raw \<and> batch_entry h job c raw = Some (fn, doc)"
      by (simp add: order)
  qed
  have every: "\<forall>c \<in> set ?convs. \<forall>raw.
                  fetch job (summary.uuid c) = Ok raw \<longrightarrow>
                  (\<exists>doc. batch_entry h job c raw = Some (entry_name job c, doc) \<and>
                         (entry_name job c, doc) \<in> set ?arch)"
    if d: "distinct (map (entry_name job) (filter (fetch_ok job) ?convs)) \<and>
           ?S \<notin> entry_name job ` {c \<in> set ?convs. fetch_ok job c}"
  proof (intro ballI allI impI)
    fix c raw assume c: "c \<in> set ?convs" and raw: "fetch job (summary.uuid c) = Ok raw"
    with assms(2) have "renderable job raw" by blast
    then obtain doc where e: "batch_entry h job c raw = Some (entry_name job c, doc)"
      using batch_entry_returns by blast
    from c have "c \<in> set ?order" by (simp add: order)
    from this raw e have mem: "(entry_name job c, doc) \<in> set ?es" by (rule batch_entries_mem)
    from c raw have okc: "fetch_ok job c" by (auto simp: fetch_ok_iff)
    from d have inj: "inj_on (entry_name job) (set (filter (fetch_ok job) ?convs))"
      by (simp add: distinct_map)
    have unique: "\<forall>e' \<in> set ?es. fst e' = fst (entry_name job c, doc) \<longrightarrow> e' = (entry_name job c, doc)"
    proof (intro ballI impI)
      fix e' assume e': "e' \<in> set ?es" and k: "fst e' = fst (entry_name job c, doc)"
      from e' obtain c' raw' where c': "c' \<in> set ?order"
        and raw': "fetch job (summary.uuid c') = Ok raw'"
        and be: "batch_entry h job c' raw' = Some e'"
        using batch_entries_from [of e' h job ?order] by blast
      from be have "fst e' = entry_name job c'"
        using batch_entry_name [of h job c' raw' "fst e'" "snd e'"] by simp
      with k have same: "entry_name job c' = entry_name job c" by simp
      from c' have "c' \<in> set ?convs" by (simp add: order)
      moreover from raw' have "fetch_ok job c'" by (auto simp: fetch_ok_iff)
      ultimately have in': "c' \<in> set (filter (fetch_ok job) ?convs)" by simp
      from c okc have in_c: "c \<in> set (filter (fetch_ok job) ?convs)" by simp
      from inj same in' in_c have "c' = c" by (rule inj_onD)
      with raw raw' be e show "e' = (entry_name job c, doc)" by simp
    qed
    have "(entry_name job c, doc) \<in> set (zip_all [] ?es)"
      by (rule zip_all_unique [OF disjI2 [OF mem] unique])
    moreover from c okc have "entry_name job c \<in> entry_name job ` {c \<in> set ?convs. fetch_ok job c}"
      by blast
    with d have "entry_name job c \<noteq> ?S" by metis
    ultimately have "(entry_name job c, doc) \<in> set ?arch" by (simp add: zip_file_keeps)
    with e show "\<exists>doc. batch_entry h job c raw = Some (entry_name job c, doc) \<and>
                         (entry_name job c, doc) \<in> set ?arch" by blast
  qed
  from result summary keys from_conv every have "\<exists>arch.
            exportAllFiltered h job =
              Some \<lparr>outcome = Exported arch, issued = map summary.uuid ?convs,
                    flag_at_end = False\<rparr> \<and>
            map_of arch ?S = Some ?sdoc \<and>
            fst ` set arch = insert ?S (entry_name job ` {c \<in> set ?convs. fetch_ok job c}) \<and>
            (\<forall>fn doc. (fn, doc) \<in> set arch \<and> fn \<noteq> ?S \<longrightarrow>
               (\<exists>c \<in> set ?convs. \<exists>raw.
                  fetch job (summary.uuid c) = Ok raw \<and> batch_entry h job c raw = Some (fn, doc))) \<and>
            (distinct (map (entry_name job) (filter (fetch_ok job) ?convs)) \<and>
             ?S \<notin> entry_name job ` {c \<in> set ?convs. fetch_ok job c} \<longrightarrow>
               (\<forall>c \<in> set ?convs. \<forall>raw.
                  fetch job (summary.uuid c) = Ok raw \<longrightarrow>
                  (\<exists>doc. batch_entry h job c raw = Some (entry_name job c, doc) \<and>
                         (entry_name job c, doc) \<in> set arch)))"
    by (intro exI [of _ ?arch] conjI impI) blast+
  with caught show ?thesis by (intro conjI)
qed

lemma cancel_in_loop:
  assumes "cancel_click job = ClickInBatch k \<or>
      (cancel_click job = ClickInPause k \<and> (k + 1) * batchSize < length (filteredConversations job))"
    and "k * batchSize < length (filteredConversations job)"
    and "\<forall>c \<in> set (take ((k + 1) * batchSize) (filteredConversations job)).
           \<forall>raw. fetch job (summary.uuid c) = Ok raw \<longrightarrow> renderable job raw"
  shows "exportAllFiltered h job =
           Some \<lparr>outcome = Cancelled,
                 issued = map summary.uuid (take ((k + 1) * batchSize) (filteredConversations job)),
                 flag_at_end = True\<rparr> \<and>
         (\<exists>st. batch_loop h job 0 initial_state = Some st \<and> cancelExport st \<and>
               zip_files st =
                 zip_all [] (batch_entries h job
                   (arrival_order job (take ((k + 1) * batchSize) (filteredConversations job)))) \<and>
               completed st + failed st =
                 length (take ((k + 1) * batchSize) (filteredConversations job)))"
proof -
  let ?done = "take ((k + 1) * batchSize) (filteredConversations job)"
  let ?st = "initial_state
       \<lparr>requests := map summary.uuid ?done,
        zip_files := zip_all [] (batch_entries h job (arrival_order job ?done)),
        completed := length (filter (fetch_ok job) ?done),
        failed := length (filter (\<lambda>c. \<not> fetch_ok job c) ?done),
        failedConversations := map name (filter (\<lambda>c. \<not> fetch_ok job c) (arrival_order job ?done)),
        cancelExport := True\<rparr>"
  have "batch_loop h job (0 * batchSize) initial_state =
      map_option (\<lambda>st'. st'\<lparr>cancelExport := True\<rparr>)
        (run_batches h job
           (take ((k + 1 - 0) * batchSize) (drop (0 * batchSize) (filteredConversations job)))
           initial_state)"
    using assms(1,2) by (rule batch_loop_click) (simp_all add: initial_state_def)
  then have "batch_loop h job 0 initial_state =
      map_option (\<lambda>st'. st'\<lparr>cancelExport := True\<rparr>) (run_batches h job ?done initial_state)"
    by simp
  then have loop: "batch_loop h job 0 initial_state = Some ?st"
    using run_batches_result [OF assms(3), of h initial_state]
    by (simp add: initial_state_def)
  have count: "length (filter (fetch_ok job) ?done) + length (filter (\<lambda>c. \<not> fetch_ok job c) ?done) =
      length ?done"
    by (rule sum_length_filter_compl)
  have "exportAllFiltered h job =
      Some \<lparr>outcome = Cancelled, issued = map summary.uuid ?done, flag_at_end = True\<rparr>"
    unfolding exportAllFiltered_def loop by (simp add: initial_state_def)
  moreover have "\<exists>st. batch_loop h job 0 initial_state = Some st \<and> cancelExport st \<and>
               zip_files st = zip_all [] (batch_entries h job (arrival_order job ?done)) \<and>
               completed st + failed st = length ?done"
  proof (intro exI [of _ ?st] conjI)
    show "batch_loop h job 0 initial_state = Some ?st" by (rule loop)
    show "cancelExport ?st" by simp
    show "zip_files ?st = zip_all [] (batch_entries h job (arrival_order job ?done))" by simp
    show "completed ?st + failed ?st = length ?done" using count by simp
  qed
  ultimately show ?thesis by (intro conjI)
qed

lemma settle_batch_click:
  "settle_batch h (job\<lparr>cancel_click := c\<rparr>) xs st = settle_batch h job xs st"
proof (induction xs arbitrary: st)
  case Nil
  then show ?case by simp
next
  case (Cons x xs)
  have "batch_entry h (job\<lparr>cancel_click := c\<rparr>) x raw = batch_entry h job x raw" for raw
    by (simp add: batch_entry_def Let_def cong: if_cong option.case_cong)
  then have "export_conv h (job\<lparr>cancel_click := c\<rparr>) x st = export_conv h job x st"
    by (simp add: export_conv_def cong: fetch_result.case_cong)
  with Cons show ?case by (simp split: option.splits)
qed

lemma arrival_order_click:
  "arrival_order (job\<lparr>cancel_click := c\<rparr>) xs = arrival_order job xs"
proof (induction job xs rule: arrival_order.induct)
  case (1 job convs)
  show ?case
  proof (cases "convs = []")
    case True
    then show ?thesis by (simp add: arrival_order_Nil)
  next
    case False
    with 1 show ?thesis by (simp add: arrival_order_split settle_order_def)
  qed
qed

lemma run_batches_click:
  "run_batches h (job\<lparr>cancel_click := c\<rparr>) xs st = run_batches h job xs st"
  by (simp add: run_batches_def settle_batch_click arrival_order_click)

lemma batch_loop_click_in_zip:
  assumes "cancel_click job = ClickInZip"
  shows "batch_loop h job 0 initial_state =
         batch_loop h (job\<lparr>cancel_click := NoClick\<rparr>) 0 initial_state"
proof -
  let ?job = "job\<lparr>cancel_click := NoClick\<rparr>"
  have "batch_loop h job 0 initial_state =
      run_batches h job (drop 0 (filteredConversations job)) initial_state"
    using assms by (intro batch_loop_no_click) (simp_all add: initial_state_def)
  moreover have "batch_loop h ?job 0 initial_state =
      run_batches h ?job (drop 0 (filteredConversations ?job)) initial_state"
    by (intro batch_loop_no_click) (simp_all add: initial_state_def)
  ultimately show ?thesis by (simp add: run_batches_click)
qed

lemma cancel_in_zip:
  assumes "cancel_click job = ClickInZip"
    and "\<forall>c \<in> set (filteredConversations job).
           \<forall>raw. fetch job (summary.uuid c) = Ok raw \<longrightarrow> renderable job raw"
  shows "\<exists>arch.
           exportAllFiltered h job =
             Some \<lparr>outcome = Exported arch, issued = map summary.uuid (filteredConversations job),
                   flag_at_end = True\<rparr> \<and>
           exportAllFiltered h (job\<lparr>cancel_click := NoClick\<rparr>) =
             Some \<lparr>outcome = Exported arch, issued = map summary.uuid (filteredConversations job),
                   flag_at_end = False\<rparr>"
proof -
  let ?job = "job\<lparr>cancel_click := NoClick\<rparr>"
  have same: "batch_loop h ?job 0 initial_state = batch_loop h job 0 initial_state"
    using assms(1) by (simp add: batch_loop_click_in_zip)
  have loop: "batch_loop h job 0 initial_state =
     Some (initial_state
       \<lparr>requests := map summary.uuid (filteredConversations job),
        zip_files :=
          zip_all [] (batch_entries h job (arrival_order job (filteredConversations job))),
        completed := length (filter (fetch_ok job) (filteredConversations job)),
        failed := length (filter (\<lambda>c. \<not> fetch_ok job c) (filteredConversations job)),
        failedConversations :=
          map name (filter (\<lambda>c. \<not> fetch_ok job c)
                      (arrival_order job (filteredConversations job)))\<rparr>)"
    using assms by (intro batch_loop_all) simp_all
  show ?thesis
    using assms(1)
    by (simp add: exportAllFiltered_def same loop) (simp add: initial_state_def)
qed

text \<open>
  Claim C5, as amended. When the cancel button is pressed while batch \<open>k\<close> is in
  flight, or in the pause after it, the export ends without an archive; the requests
  issued are those of the batches up to \<open>k\<close>, all of them: the batch in flight is
  finished, its outputs are rendered and then dropped with the others, and no later
  batch is started. When it is pressed later, while the archive is generated, the flag
  is set and not read: the archive is produced as without the click.
\<close>
theorem cancel_stops_batches:
  "((cancel_click job = ClickInBatch k \<or>
       (cancel_click job = ClickInPause k \<and> (k + 1) * batchSize < length (filteredConversations job))) \<and>
     k * batchSize < length (filteredConversations job) \<and>
     (\<forall>c \<in> set (take ((k + 1) * batchSize) (filteredConversations job)).
        \<forall>raw. fetch job (summary.uuid c) = Ok raw \<longrightarrow> renderable job raw)
     \<longrightarrow>
     exportAllFiltered h job =
       Some \<lparr>outcome = Cancelled,
             issued = map summary.uuid (take ((k + 1) * batchSize) (filteredConversations job)),
             flag_at_end = True\<rparr> \<and>
     (\<exists>st. batch_loop h job 0 initial_state = Some st \<and> cancelExport st \<and>
           zip_files st =
             zip_all [] (batch_entries h job
               (arrival_order job (take ((k + 1) * batchSize) (filteredConversations job)))) \<and>
           completed st + failed st =
             length (take ((k + 1) * batchSize) (filteredConversations job)))) \<and>
   (cancel_click job = ClickInZip \<and>
     (\<forall>c \<in> set (filteredConversations job).
        \<forall>raw. fetch job (summary.uuid c) = Ok raw \<longrightarrow> renderable job raw)
     \<longrightarrow>
     (\<exists>arch.
        exportAllFiltered h job =
          Some \<lparr>outcome = Exported arch, issued = map summary.uuid (filteredConversations job),
                flag_at_end = True\<rparr> \<and>
        exportAllFiltered h (job\<lparr>cancel_click := NoClick\<rparr>) =
          Some \<lparr>outcome = Exported arch, issued = map summary.uuid (filteredConversations job),
                flag_at_end = False\<rparr>))"
proof (intro conjI impI)
  assume "(cancel_click job = ClickInBatch k \<or>
       (cancel_click job = ClickInPause k \<and> (k + 1) * batchSize < length (filteredConversations job))) \<and>
     k * batchSize < length (filteredConversations job) \<and>
     (\<forall>c \<in> set (take ((k + 1) * batchSize) (filteredConversations job)).
        \<forall>raw. fetch job (summary.uuid c) = Ok raw \<longrightarrow> renderable job raw)"
  then have a: "cancel_click job = ClickInBatch k \<or>
       (cancel_click job = ClickInPause k \<and> (k + 1) * batchSize < length (filteredConversations job))"
    and b: "k * batchSize < length (filteredConversations job)"
    and c: "\<forall>c \<in> set (take ((k + 1) * batchSize) (filteredConversations job)).
        \<forall>raw. fetch job (summary.uuid c) = Ok raw \<longrightarrow> renderable job raw"
    by (rule conjunct1, rule conjunct2 [THEN conjunct1], rule conjunct2 [THEN conjunct2])
  from cancel_in_loop [OF a b c, of h]
  show "exportAllFiltered h job =
       Some \<lparr>outcome = Cancelled,
             issued = map summary.uuid (take ((k + 1) * batchSize) (filteredConversations job)),
             flag_at_end = True\<rparr>"
    by (rule conjunct1)
  from cancel_in_loop [OF a b c, of h]
  show "\<exists>st. batch_loop h job 0 initial_state = Some st \<and> cancelExport st \<and>
           zip_files st =
             zip_all [] (batch_entries h job
               (arrival_order job (take ((k + 1) * batchSize) (filteredConversations job)))) \<and>
           completed st + failed st =
             length (take ((k + 1) * batchSize) (filteredConversations job))"
    by (rule conjunct2)
next
  assume "cancel_click job = ClickInZip \<and>
     (\<forall>c \<in> set (filteredConversations job).
        \<forall>raw. fetch job (summary.uuid c) = Ok raw \<longrightarrow> renderable job raw)"
  then have a: "cancel_click job = ClickInZip"
    and b: "\<forall>c \<in> set (filteredConversations job).
        \<forall>raw. fetch job (summary.uuid c) = Ok raw \<longrightarrow> renderable job raw"
    by (rule conjunct1, rule conjunct2)
  from cancel_in_zip [OF a b, of h]
  show "\<exists>arch.
        exportAllFiltered h job =
          Some \<lparr>outcome = Exported arch, issued = map summary.uuid (filteredConversations job),
                flag_at_end = True\<rparr> \<and>
        exportAllFiltered h (job\<lparr>cancel_click := NoClick\<rparr>) =
          Some \<lparr>outcome = Exported arch, issued = map summary.uuid (filteredConversations job),
                flag_at_end = False\<rparr>" .
qed

lemma ex_job7_fetch_ok: "fetch_ok ex_job7 (ex_summary u n) \<longleftrightarrow> u \<noteq> ''u5''"
  by (simp add: fetch_ok_def ex_job7_def ex_summary_sel)

lemma ex_job7_fetch: "fetch ex_job7 u = Ok raw \<Longrightarrow> raw = ex_conv"
  by (simp add: ex_job7_def split: if_splits)

lemma ex_job7_well_formed:
  "\<forall>c \<in> set (filteredConversations ex_job7).
     \<forall>raw. fetch ex_job7 (summary.uuid c) = Ok raw \<longrightarrow> renderable ex_job7 raw"
  using ex_job7_fetch ex_conv_well_formed by (auto simp: renderable_def)

lemma ex_job7_arrival_order: "arrival_order ex_job7 xs = xs"
  by (rule arrival_order_same_time [where t = 0]) (simp add: ex_job7_def)

lemma ex_job7_convs:
  "filteredConversations ex_job7 =
       [ex_summary ''u1'' ''One'', ex_summary ''u2'' ''Two'', ex_summary ''u3'' ''Three'',
        ex_summary ''u4'' ''Four'', ex_summary ''u5'' ''Five'', ex_summary ''u6'' ''Six'',
        ex_summary ''u7'' ''Seven'']"
  "export_options.format ex_job7 = ''text''" "includeMetadata ex_job7 = False"
  "now ex_job7 = ''2025-01-01T00:00:00.000Z''" "cancel_click ex_job7 = NoClick"
  by (simp_all add: ex_job7_def)

theorem batch_export_partial_failure_witness:
  "\<exists>arch.
     exportAllFiltered ex_host ex_job7 =
       Some \<lparr>outcome = Exported arch,
             issued = [''u1'', ''u2'', ''u3'', ''u4'', ''u5'', ''u6'', ''u7''],
             flag_at_end = False\<rparr> \<and>
     map_of arch ''export_summary.json'' =
       Some (JsonText (Inr
         \<lparr>export_date = ''2025-01-01T00:00:00.000Z'', total_conversations = 7,
          successful_exports = 6, failed_exports = 1, failed_conversations = [''Five''],
          export_summary.format = ''text'', include_metadata = False\<rparr>))"
proof -
  from batch_export_partial_failure [of ex_job7 ex_host, OF ex_job7_convs(5) ex_job7_well_formed,
      THEN conjunct2]
  obtain arch where
    "exportAllFiltered ex_host ex_job7 =
       Some \<lparr>outcome = Exported arch,
             issued = map summary.uuid (filteredConversations ex_job7), flag_at_end = False\<rparr>"
    "map_of arch ''export_summary.json'' =
       Some (JsonText (stringify_summary ex_host
                \<lparr>export_date = now ex_job7,
                 total_conversations = length (filteredConversations ex_job7),
                 successful_exports = length (filter (fetch_ok ex_job7) (filteredConversations ex_job7)),
                 failed_exports = length (filter (\<lambda>c. \<not> fetch_ok ex_job7 c) (filteredConversations ex_job7)),
                 failed_conversations =
                   map name (filter (\<lambda>c. \<not> fetch_ok ex_job7 c)
                               (arrival_order ex_job7 (filteredConversations ex_job7))),
                 export_summary.format = export_options.format ex_job7,
                 include_metadata = includeMetadata ex_job7\<rparr>))"
    by (elim exE conjE) (rule that)
  then show ?thesis
    by (intro exI [of _ arch])
       (simp add: ex_job7_arrival_order ex_job7_convs ex_job7_fetch_ok ex_summary_sel ex_host_def)
qed

lemma ex_job7_cancel_well_formed:
  "\<forall>c \<in> set (take ((0 + 1) * batchSize) (filteredConversations (ex_job7\<lparr>cancel_click := ClickInBatch 0\<rparr>))).
     \<forall>raw. fetch (ex_job7\<lparr>cancel_click := ClickInBatch 0\<rparr>) (summary.uuid c) = Ok raw \<longrightarrow>
       renderable (ex_job7\<lparr>cancel_click := ClickInBatch 0\<rparr>) raw"
proof -
  have "fetch (ex_job7\<lparr>cancel_click := ClickInBatch 0\<rparr>) u = Ok raw \<Longrightarrow> raw = ex_conv" for u raw
    using ex_job7_fetch [of u raw] by simp
  then show ?thesis using ex_conv_well_formed by (auto simp: renderable_def)
qed

theorem cancel_stops_batches_witness:
  "exportAllFiltered ex_host (ex_job7\<lparr>cancel_click := ClickInBatch 0\<rparr>) =
     Some \<lparr>outcome = Cancelled, issued = [''u1'', ''u2'', ''u3''], flag_at_end = True\<rparr>"
proof -
  let ?job = "ex_job7\<lparr>cancel_click := ClickInBatch 0\<rparr>"
  have "(cancel_click ?job = ClickInBatch 0 \<or>
       (cancel_click ?job = ClickInPause 0 \<and> (0 + 1) * batchSize < length (filteredConversations ?job))) \<and>
     0 * batchSize < length (filteredConversations ?job) \<and>
     (\<forall>c \<in> set (take ((0 + 1) * batchSize) (filteredConversations ?job)).
        \<forall>raw. fetch ?job (summary.uuid c) = Ok raw \<longrightarrow> renderable ?job raw)"
    using ex_job7_cancel_well_formed by (simp add: ex_job7_convs)
  with cancel_stops_batches [of ?job 0 ex_host, THEN conjunct1]
  have "exportAllFiltered ex_host ?job =
       Some \<lparr>outcome = Cancelled,
             issued = map summary.uuid (take ((0 + 1) * batchSize) (filteredConversations ?job)),
             flag_at_end = True\<rparr> \<and>
     (\<exists>st. batch_loop ex_host ?job 0 initial_state = Some st \<and> cancelExport st \<and>
           zip_files st =
             zip_all [] (batch_entries ex_host ?job
               (arrival_order ?job (take ((0 + 1) * batchSize) (filteredConversations ?job)))) \<and>
           completed st + failed st =
             length (take ((0 + 1) * batchSize) (filteredConversations ?job)))"
    by (rule mp)
  then have "exportAllFiltered ex_host ?job =
       Some \<lparr>outcome = Cancelled,
             issued = map summary.uuid (take ((0 + 1) * batchSize) (filteredConversations ?job)),
             flag_at_end = True\<rparr>"
    by (rule conjunct1)
  then show ?thesis by (simp add: ex_job7_convs batchSize_def ex_summary_sel)
qed

theorem cancel_during_zip_counterexample:
  "\<exists>arch. exportAllFiltered ex_host (ex_job7\<lparr>cancel_click := ClickInZip\<rparr>) =
     Some \<lparr>outcome = Exported arch,
           issued = [''u1'', ''u2'', ''u3'', ''u4'', ''u5'', ''u6'', ''u7''],
           flag_at_end = True\<rparr>"
proof -
  let ?job = "ex_job7\<lparr>cancel_click := ClickInZip\<rparr>"
  have "fetch ?job u = Ok raw \<Longrightarrow> raw = ex_conv" for u raw
    using ex_job7_fetch [of u raw] by simp
  then have r: "\<forall>c \<in> set (filteredConversations ?job).
      \<forall>raw. fetch ?job (summary.uuid c) = Ok raw \<longrightarrow> renderable ?job raw"
    using ex_conv_well_formed by (auto simp: renderable_def)
  have c: "cancel_click ?job = ClickInZip" by simp
  from cancel_in_zip [OF c r, of ex_host] obtain arch where
    "exportAllFiltered ex_host ?job =
       Some \<lparr>outcome = Exported arch, issued = map summary.uuid (filteredConversations ?job),
             flag_at_end = True\<rparr>"
    by (elim exE conjE) (rule that)
  then show ?thesis
    by (intro exI [of _ arch]) (simp add: ex_job7_convs ex_summary_sel)
qed

section \<open>Properties of the export of one conversation\<close>

lemma handler_json:
  assumes "export_options.format request \<noteq> ''markdown''" and "export_options.format request \<noteq> ''text''"
  shows "exportConversation_handler h request (Ok raw) =
     Some (Downloaded
       \<lparr>file_content = JsonText (stringify h (raw\<lparr>model := Some (inferModel raw)\<rparr>)),
        filename = ''claude-conversation-'' @
          (if name raw \<noteq> [] then name raw else conversationId request) @ ''.json'',
        mime_type = ''application/json''\<rparr>)"
  using assms by (simp add: exportConversation_handler_def Let_def)

text \<open>
  Claim C6. With a parser that inverts the host's \<open>JSON.stringify\<close>, the document of
  a JSON export parses to a record whose model is the inferred model and which is the
  original record in every other field: putting the original model back gives the
  original record.
\<close>
theorem json_export_round_trip:
  assumes "\<forall>v. parse (stringify h v) = Some v"
    and "export_options.format request \<noteq> ''markdown''"
    and "export_options.format request \<noteq> ''text''"
  shows "\<exists>d j parsed.
           exportConversation_handler h request (Ok raw) = Some (Downloaded d) \<and>
           file_content d = JsonText j \<and> parse j = Some parsed \<and>
           model parsed = Some (inferModel raw) \<and>
           parsed\<lparr>model := model raw\<rparr> = raw"
proof -
  let ?data = "raw\<lparr>model := Some (inferModel raw)\<rparr>"
  let ?d = "\<lparr>file_content = JsonText (stringify h ?data),
        filename = ''claude-conversation-'' @
          (if name raw \<noteq> [] then name raw else conversationId request) @ ''.json'',
        mime_type = ''application/json''\<rparr>"
  have "exportConversation_handler h request (Ok raw) = Some (Downloaded ?d)"
    using assms(2,3) by (rule handler_json)
  moreover have "file_content ?d = JsonText (stringify h ?data)" by simp
  moreover have "parse (stringify h ?data) = Some ?data" using assms(1) by simp
  moreover have "model ?data = Some (inferModel raw)" by simp
  moreover have "?data\<lparr>model := model raw\<rparr> = raw" by simp
  ultimately show ?thesis by blast
qed

lemma ex_conv_inferModel: "inferModel ex_conv = ''claude-3-5-sonnet-20240620''"
  by (simp add: inferModel_def ex_conv_def model_by_date_def DEFAULT_MODEL_TIMELINE_def)

theorem json_export_round_trip_witness:
  "\<exists>d j parsed.
     exportConversation_handler ex_host ex_request (Ok ex_conv) = Some (Downloaded d) \<and>
     file_content d = JsonText j \<and> ex_parse j = Some parsed \<and>
     model parsed = Some ''claude-3-5-sonnet-20240620'' \<and>
     parsed\<lparr>model := None\<rparr> = ex_conv"
proof -
  have 1: "\<forall>v. ex_parse (stringify ex_host v) = Some v"
    by (simp add: ex_parse_def ex_host_def)
  have 2: "export_options.format ex_request \<noteq> ''markdown''"
    and 3: "export_options.format ex_request \<noteq> ''text''"
    by (simp_all add: ex_request_def)
  have 4: "model ex_conv = None" by (simp add: ex_conv_def)
  from json_export_round_trip [OF 1 2 3, of ex_conv] show ?thesis
    by (simp only: ex_conv_inferModel 4)
qed

lemma spec_ext_md: "spec_ext ''markdown'' = ''.md''"
  by (simp add: spec_ext_def)

lemma spec_ext_txt: "spec_ext ''text'' = ''.txt''"
  by (simp add: spec_ext_def)

lemma renders:
  assumes "well_formed raw"
  shows "\<exists>md tdoc. convertToMarkdown show_date (raw\<lparr>model := m\<rparr>) meta = Some md \<and>
                  convertToText show_date (raw\<lparr>model := m\<rparr>) meta = Some tdoc"
proof -
  from assms obtain b where "getCurrentBranch raw = Some b"
    using getCurrentBranch_returns by blast
  then have "getCurrentBranch (raw\<lparr>model := m\<rparr>) = Some b"
    by (simp add: getCurrentBranch_model_update)
  then show ?thesis by (simp add: convertToMarkdown_def convertToText_def)
qed

lemma handler_filename:
  assumes "export_options.format request = ''markdown'' \<or> export_options.format request = ''text''
           \<longrightarrow> well_formed raw"
  shows "\<exists>d. exportConversation_handler h request (Ok raw) = Some (Downloaded d) \<and>
             filename d = ''claude-conversation-'' @
               (if name raw \<noteq> [] then name raw else conversationId request) @
               spec_ext (export_options.format request)"
proof (cases "export_options.format request = ''markdown'' \<or> export_options.format request = ''text''")
  case False
  then show ?thesis by (simp add: exportConversation_handler_def Let_def spec_ext_def)
next
  case True
  with assms have "well_formed raw" by simp
  then obtain md tdoc where
    "convertToMarkdown (toLocaleString h) (raw\<lparr>model := Some (inferModel raw)\<rparr>)
       (includeMetadata request) = Some md"
    "convertToText (toLocaleString h) (raw\<lparr>model := Some (inferModel raw)\<rparr>)
       (includeMetadata request) = Some tdoc"
    using renders by blast
  then show ?thesis by (simp add: exportConversation_handler_def Let_def spec_ext_def)
qed

lemma exportConversation_filename:
  assumes "export_options.format opts = ''markdown'' \<or> export_options.format opts = ''text''
           \<longrightarrow> well_formed raw"
  shows "\<exists>d. exportConversation h opts cid cname (Ok raw) = Some (Downloaded d) \<and>
             filename d = ''claude-'' @ (if cname \<noteq> [] then cname else cid) @
               spec_ext (export_options.format opts)"
proof (cases "export_options.format opts = ''markdown'' \<or> export_options.format opts = ''text''")
  case False
  then show ?thesis by (simp add: exportConversation_def Let_def spec_ext_def)
next
  case True
  with assms have "well_formed raw" by simp
  then obtain md tdoc where
    "convertToMarkdown (toLocaleString h) (raw\<lparr>model := Some (inferModel raw)\<rparr>)
       (includeMetadata opts) = Some md"
    "convertToText (toLocaleString h) (raw\<lparr>model := Some (inferModel raw)\<rparr>)
       (includeMetadata opts) = Some tdoc"
    using renders by blast
  then show ?thesis by (simp add: exportConversation_def Let_def spec_ext_def)
qed

lemma safeName_chars:
  "safeName nm =
     map (\<lambda>c. if c \<in> {CHR ''<'', CHR ''>'', CHR '':'', CHR 0x22, CHR ''/'', CHR 0x5C, CHR ''|'',
                       CHR ''?'', CHR ''*''} then CHR ''_'' else c) nm"
  by (simp add: safeName_def invalid_filename_chars_def)

lemma archive_names:
  assumes "cancel_click job = NoClick \<or> cancel_click job = ClickInZip"
    and "\<forall>c \<in> set (filteredConversations job).
           \<forall>raw. fetch job (summary.uuid c) = Ok raw \<longrightarrow> renderable job raw"
  shows "\<exists>r arch s.
           exportAllFiltered h job = Some r \<and> outcome r = Exported arch \<and>
           set (map fst arch) =
             set (''export_summary.json'' #
                  map (\<lambda>c. safeName (name c) @ spec_ext (export_options.format job))
                      (filter (fetch_ok job) (filteredConversations job))) \<and>
           map_of arch ''export_summary.json'' = Some (JsonText (stringify_summary h s))"
proof -
  let ?convs = "filteredConversations job"
  let ?order = "arrival_order job ?convs"
  let ?es = "batch_entries h job ?order"
  let ?s = "\<lparr>export_date = now job,
             total_conversations = length ?convs,
             successful_exports = length (filter (fetch_ok job) ?convs),
             failed_exports = length (filter (\<lambda>c. \<not> fetch_ok job c) ?convs),
             failed_conversations = map name (filter (\<lambda>c. \<not> fetch_ok job c) ?order),
             export_summary.format = export_options.format job,
             include_metadata = includeMetadata job\<rparr>"
  let ?arch = "zip_file ''export_summary.json'' (JsonText (stringify_summary h ?s)) (zip_all [] ?es)"
  let ?r = "\<lparr>outcome = Exported ?arch, issued = map summary.uuid ?convs,
             flag_at_end = (cancel_click job = ClickInZip)\<rparr>"
  have order: "set ?order = set ?convs" by (rule arrival_order_set)
  from assms(2) have rend: "\<forall>c \<in> set ?order.
      \<forall>raw. fetch job (summary.uuid c) = Ok raw \<longrightarrow> renderable job raw"
    by (simp add: order)
  have loop: "batch_loop h job 0 initial_state =
     Some (initial_state
       \<lparr>requests := map summary.uuid ?convs,
        zip_files := zip_all [] ?es,
        completed := length (filter (fetch_ok job) ?convs),
        failed := length (filter (\<lambda>c. \<not> fetch_ok job c) ?convs),
        failedConversations := map name (filter (\<lambda>c. \<not> fetch_ok job c) ?order)\<rparr>)"
    using assms by (rule batch_loop_all)
  have result: "exportAllFiltered h job = Some ?r"
    by (simp add: exportAllFiltered_def loop) (simp add: initial_state_def)
  have en: "entry_name job = (\<lambda>c. safeName (name c) @ spec_ext (export_options.format job))"
    by (rule ext) (simp add: entry_name_def)
  have "map fst ?es = map (entry_name job) (filter (fetch_ok job) ?order)"
    using rend by (rule batch_entries_names)
  then have "set (map fst ?es) = set (map (entry_name job) (filter (fetch_ok job) ?order))"
    by (rule arg_cong)
  also have "\<dots> = set (map (entry_name job) (filter (fetch_ok job) ?convs))"
    by (simp add: order)
  finally have "set (map fst ?es) =
      set (map (\<lambda>c. safeName (name c) @ spec_ext (export_options.format job))
               (filter (fetch_ok job) ?convs))"
    unfolding en .
  then have keys: "set (map fst ?arch) =
      set (''export_summary.json'' #
           map (\<lambda>c. safeName (name c) @ spec_ext (export_options.format job))
               (filter (fetch_ok job) ?convs))"
    by (simp add: keys_zip_file keys_zip_all)
  have summary: "map_of ?arch ''export_summary.json'' = Some (JsonText (stringify_summary h ?s))"
    by (simp add: map_of_zip_file)
  have "outcome ?r = Exported ?arch" by simp
  with result keys summary show ?thesis by blast
qed

lemma export_each_names:
  assumes "\<forall>c \<in> set convs. \<forall>raw. answer (summary.uuid c) = Ok raw \<longrightarrow> well_formed raw"
  shows "\<exists>st'. export_each show_date opts answer convs st = Some st' \<and>
     map filename (downloaded st') =
       map filename (downloaded st) @
       map (\<lambda>c. ''claude-'' @ (if name c \<noteq> [] then name c else summary.uuid c) @
                 (if export_options.format opts = ''markdown'' then ''.md'' else ''.txt''))
           (filter (answered answer) convs)"
  using assms
proof (induction convs arbitrary: st)
  case Nil
  then show ?case by simp
next
  case (Cons c convs)
  let ?nm = "\<lambda>c. ''claude-'' @ (if name c \<noteq> [] then name c else summary.uuid c) @
                 (if export_options.format opts = ''markdown'' then ''.md'' else ''.txt'')"
  from Cons.prems have rest: "\<forall>c \<in> set convs. \<forall>raw. answer (summary.uuid c) = Ok raw \<longrightarrow> well_formed raw"
    by simp
  show ?case
  proof (cases "answered answer c")
    case False
    let ?st1 = "st\<lparr>errors := errors st @ [if name c \<noteq> [] then name c else summary.uuid c]\<rparr>"
    from False have step: "export_each show_date opts answer (c # convs) st =
        export_each show_date opts answer convs ?st1"
      by (simp add: answered_def split: fetch_result.splits)
    from Cons.IH [OF rest, of ?st1] False show ?thesis
      unfolding step by simp
  next
    case True
    then obtain raw where raw: "answer (summary.uuid c) = Ok raw"
      by (auto simp: answered_def split: fetch_result.splits)
    with Cons.prems have "well_formed raw" by simp
    then obtain md tdoc where
      r: "convertToMarkdown show_date (raw\<lparr>model := Some (inferModel raw)\<rparr>) (includeMetadata opts) = Some md"
         "convertToText show_date (raw\<lparr>model := Some (inferModel raw)\<rparr>) (includeMetadata opts) = Some tdoc"
      using renders by blast
    let ?doc = "if export_options.format opts = ''markdown'' then md else tdoc"
    let ?st1 = "st\<lparr>downloaded := downloaded st @
                      [\<lparr>file_content = Text ?doc, filename = ?nm c,
                        mime_type = (if export_options.format opts = ''markdown''
                                     then ''text/markdown'' else ''text/plain'')\<rparr>],
                    exported := exported st + 1\<rparr>"
    from raw r have step: "export_each show_date opts answer (c # convs) st =
        export_each show_date opts answer convs ?st1"
      by (simp add: Let_def)
    from Cons.IH [OF rest, of ?st1] True show ?thesis
      unfolding step by simp
  qed
qed

lemma exportAllConversations_names:
  assumes "\<forall>c \<in> set convs. \<forall>raw. answer (summary.uuid c) = Ok raw \<longrightarrow> well_formed raw"
    and "export_options.format opts \<noteq> ''json''"
  shows "\<exists>r. exportAllConversations show_date stringify_all opts today (Ok convs) answer = Some r \<and>
     map filename (all_downloads r) =
       map (\<lambda>c. ''claude-'' @ (if name c \<noteq> [] then name c else summary.uuid c) @
                 (if export_options.format opts = ''markdown'' then ''.md'' else ''.txt''))
           (filter (answered answer) convs)"
proof -
  let ?st0 = "\<lparr>downloaded = [], exported = 0, errors = []\<rparr> :: 'c all_state"
  from export_each_names [OF assms(1), of show_date opts ?st0]
  obtain st' where e: "export_each show_date opts answer convs ?st0 = Some st'"
    and n: "map filename (downloaded st') =
       map filename (downloaded ?st0) @
       map (\<lambda>c. ''claude-'' @ (if name c \<noteq> [] then name c else summary.uuid c) @
                 (if export_options.format opts = ''markdown'' then ''.md'' else ''.txt''))
           (filter (answered answer) convs)"
    by (elim exE conjE) (rule that)
  let ?r = "\<lparr>all_downloads = downloaded st', reply = Replied (exported st') (errors st')\<rparr>"
  have "exportAllConversations show_date stringify_all opts today (Ok convs) answer = Some ?r"
    using assms(2) e by (simp add: exportAllConversations_def)
  moreover have "map filename (all_downloads ?r) =
       map (\<lambda>c. ''claude-'' @ (if name c \<noteq> [] then name c else summary.uuid c) @
                 (if export_options.format opts = ''markdown'' then ''.md'' else ''.txt''))
           (filter (answered answer) convs)"
    using n by (simp only: all_result.simps download.simps all_state.simps list.map append_Nil)
  ultimately show ?thesis by (rule_tac x = ?r in exI) (rule conjI)
qed

lemma exportAllConversations_json:
  assumes "export_options.format opts = ''json''"
  shows "\<exists>r. exportAllConversations show_date stringify_all opts today (Ok convs) answer = Some r \<and>
     map filename (all_downloads r) = [''claude-all-conversations-'' @ today @ ''.json'']"
  using assms by (simp add: exportAllConversations_def split: prod.splits)

text \<open>
  Claim C8, as amended. The content script names the file of a single export
  \<open>claude-conversation-\<close>, then the name of the record or else the identifier, then the
  extension; the browse page names it \<open>claude-\<close>, then the name or else the identifier,
  then the extension. The batch export of the browse page, \<open>exportAllFiltered\<close>, stores
  each output under the name of the conversation, every character among
  \<open>< > : " / \ | ? *\<close> replaced by an underscore, followed by the extension; when it
  is not cancelled, the names of its archive are these and \<open>export_summary.json\<close>, under
  which the summary is stored. The extension is \<open>.md\<close> for markdown, \<open>.txt\<close> for text
  and \<open>.json\<close> otherwise. The export of all conversations by the content script,
  \<open>exportAllConversations\<close>, replaces no character and writes no summary: it downloads
  each conversation as \<open>claude-\<close>, then the name or else the identifier, then \<open>.md\<close> for
  markdown and \<open>.txt\<close> for every other format but \<open>json\<close>, for which it downloads one
  file, \<open>claude-all-conversations-\<close>, then the date, then \<open>.json\<close>. The records are
  taken to be well formed wherever their messages are walked.
\<close>
theorem export_file_names:
  "((export_options.format request = ''markdown'' \<or> export_options.format request = ''text''
       \<longrightarrow> well_formed raw) \<longrightarrow>
     (\<exists>d. exportConversation_handler h request (Ok raw) = Some (Downloaded d) \<and>
          filename d = ''claude-conversation-'' @
            (if name raw \<noteq> [] then name raw else conversationId request) @
            spec_ext (export_options.format request))) \<and>
   ((export_options.format opts = ''markdown'' \<or> export_options.format opts = ''text''
       \<longrightarrow> well_formed raw) \<longrightarrow>
     (\<exists>d. exportConversation h opts cid cname (Ok raw) = Some (Downloaded d) \<and>
          filename d = ''claude-'' @ (if cname \<noteq> [] then cname else cid) @
            spec_ext (export_options.format opts))) \<and>
   (renderable job raw \<longrightarrow>
     (\<exists>doc. batch_entry h job conv raw =
        Some (safeName (name conv) @ spec_ext (export_options.format job), doc))) \<and>
   ((cancel_click job = NoClick \<or> cancel_click job = ClickInZip) \<and>
    (\<forall>c \<in> set (filteredConversations job).
       \<forall>raw. fetch job (summary.uuid c) = Ok raw \<longrightarrow> renderable job raw) \<longrightarrow>
     (\<exists>r arch s.
        exportAllFiltered h job = Some r \<and> outcome r = Exported arch \<and>
        set (map fst arch) =
          set (''export_summary.json'' #
               map (\<lambda>c. safeName (name c) @ spec_ext (export_options.format job))
                   (filter (fetch_ok job) (filteredConversations job))) \<and>
        map_of arch ''export_summary.json'' = Some (JsonText (stringify_summary h s)))) \<and>
   (\<forall>nm. safeName nm =
      map (\<lambda>c. if c \<in> {CHR ''<'', CHR ''>'', CHR '':'', CHR 0x22, CHR ''/'', CHR 0x5C, CHR ''|'',
                        CHR ''?'', CHR ''*''} then CHR ''_'' else c) nm) \<and>
   ((\<forall>c \<in> set convs. \<forall>raw. answer (summary.uuid c) = Ok raw \<longrightarrow> well_formed raw) \<and>
    export_options.format all_opts \<noteq> ''json'' \<longrightarrow>
     (\<exists>r. exportAllConversations show_date stringify_all all_opts today (Ok convs) answer = Some r \<and>
          map filename (all_downloads r) =
            map (\<lambda>c. ''claude-'' @ (if name c \<noteq> [] then name c else summary.uuid c) @
                      (if export_options.format all_opts = ''markdown'' then ''.md'' else ''.txt''))
                (filter (answered answer) convs))) \<and>
   (export_options.format all_opts = ''json'' \<longrightarrow>
     (\<exists>r. exportAllConversations show_date stringify_all all_opts today (Ok convs) answer = Some r \<and>
          map filename (all_downloads r) = [''claude-all-conversations-'' @ today @ ''.json''])) \<and>
   spec_ext ''markdown'' = ''.md'' \<and> spec_ext ''text'' = ''.txt'' \<and>
   (\<forall>fmt. fmt \<noteq> ''markdown'' \<and> fmt \<noteq> ''text'' \<longrightarrow> spec_ext fmt = ''.json'')"
proof (intro conjI allI impI)
  assume "export_options.format request = ''markdown'' \<or> export_options.format request = ''text''
       \<longrightarrow> well_formed raw"
  then show "\<exists>d. exportConversation_handler h request (Ok raw) = Some (Downloaded d) \<and>
          filename d = ''claude-conversation-'' @
            (if name raw \<noteq> [] then name raw else conversationId request) @
            spec_ext (export_options.format request)"
    by (rule handler_filename)
next
  assume "export_options.format opts = ''markdown'' \<or> export_options.format opts = ''text''
       \<longrightarrow> well_formed raw"
  then show "\<exists>d. exportConversation h opts cid cname (Ok raw) = Some (Downloaded d) \<and>
          filename d = ''claude-'' @ (if cname \<noteq> [] then cname else cid) @
            spec_ext (export_options.format opts)"
    by (rule exportConversation_filename)
next
  assume "renderable job raw"
  then have "\<exists>doc. batch_entry h job conv raw = Some (entry_name job conv, doc)"
    by (rule batch_entry_returns)
  then show "\<exists>doc. batch_entry h job conv raw =
        Some (safeName (name conv) @ spec_ext (export_options.format job), doc)"
    by (simp add: entry_name_def)
next
  assume a: "(cancel_click job = NoClick \<or> cancel_click job = ClickInZip) \<and>
    (\<forall>c \<in> set (filteredConversations job).
       \<forall>raw. fetch job (summary.uuid c) = Ok raw \<longrightarrow> renderable job raw)"
  then have 1: "cancel_click job = NoClick \<or> cancel_click job = ClickInZip"
    and 2: "\<forall>c \<in> set (filteredConversations job).
       \<forall>raw. fetch job (summary.uuid c) = Ok raw \<longrightarrow> renderable job raw"
    by (rule conjunct1, rule conjunct2)
  from 1 2 show "\<exists>r arch s.
        exportAllFiltered h job = Some r \<and> outcome r = Exported arch \<and>
        set (map fst arch) =
          set (''export_summary.json'' #
               map (\<lambda>c. safeName (name c) @ spec_ext (export_options.format job))
                   (filter (fetch_ok job) (filteredConversations job))) \<and>
        map_of arch ''export_summary.json'' = Some (JsonText (stringify_summary h s))"
    by (rule archive_names)
next
  fix nm show "safeName nm =
      map (\<lambda>c. if c \<in> {CHR ''<'', CHR ''>'', CHR '':'', CHR 0x22, CHR ''/'', CHR 0x5C, CHR ''|'',
                        CHR ''?'', CHR ''*''} then CHR ''_'' else c) nm"
    by (rule safeName_chars)
next
  assume a: "(\<forall>c \<in> set convs. \<forall>raw. answer (summary.uuid c) = Ok raw \<longrightarrow> well_formed raw) \<and>
    export_options.format all_opts \<noteq> ''json''"
  then have 1: "\<forall>c \<in> set convs. \<forall>raw. answer (summary.uuid c) = Ok raw \<longrightarrow> well_formed raw"
    and 2: "export_options.format all_opts \<noteq> ''json''"
    by (rule conjunct1, rule conjunct2)
  from 1 2 show "\<exists>r. exportAllConversations show_date stringify_all all_opts today (Ok convs) answer = Some r \<and>
          map filename (all_downloads r) =
            map (\<lambda>c. ''claude-'' @ (if name c \<noteq> [] then name c else summary.uuid c) @
                      (if export_options.format all_opts = ''markdown'' then ''.md'' else ''.txt''))
                (filter (answered answer) convs)"
    by (rule exportAllConversations_names)
next
  assume "export_options.format all_opts = ''json''"
  then show "\<exists>r. exportAllConversations show_date stringify_all all_opts today (Ok convs) answer = Some r \<and>
          map filename (all_downloads r) = [''claude-all-conversations-'' @ today @ ''.json'']"
    by (rule exportAllConversations_json)
next
  show "spec_ext ''markdown'' = ''.md''" by (rule spec_ext_md)
next
  show "spec_ext ''text'' = ''.txt''" by (rule spec_ext_txt)
next
  fix fmt assume "fmt \<noteq> ''markdown'' \<and> fmt \<noteq> ''text''"
  then show "spec_ext fmt = ''.json''" by (simp add: spec_ext_def)
qed

theorem single_export_name_counterexample:
  "\<exists>d. exportConversation_handler ex_host ex_request (Ok ex_conv) = Some (Downloaded d) \<and>
       filename d = ''claude-conversation-Trip.json'' \<and> filename d \<noteq> ''claude-Trip.json''"
proof -
  have "export_options.format ex_request \<noteq> ''markdown''" "export_options.format ex_request \<noteq> ''text''"
    by (simp_all add: ex_request_def)
  from handler_json [OF this, of ex_host ex_conv] show ?thesis
    by (simp add: ex_conv_def)
qed

lemma ex_answer_well_formed:
  "\<forall>c \<in> set ex_listing. \<forall>raw. ex_answer (summary.uuid c) = Ok raw \<longrightarrow> well_formed raw"
  using ex_conv_well_formed by (auto simp: ex_answer_def split: if_splits)

lemma ex_answered: "answered ex_answer (ex_summary u n) \<longleftrightarrow> u \<noteq> ''u3''"
  by (simp add: answered_def ex_answer_def ex_summary_sel)

theorem export_file_names_witness:
  "(\<exists>d. exportConversation_handler ex_host ex_request (Ok ex_conv) = Some (Downloaded d) \<and>
        filename d = ''claude-conversation-Trip.json'') \<and>
   (\<exists>d. exportConversation ex_host ex_options ''c1'' [] (Ok ex_conv) = Some (Downloaded d) \<and>
        filename d = ''claude-c1.txt'') \<and>
   (\<exists>doc. batch_entry ex_host ex_job7 (ex_summary ''u9'' ''a/b: c?'') ex_conv =
        Some (''a_b_ c_.txt'', doc)) \<and>
   (\<exists>r arch s.
      exportAllFiltered ex_host ex_job7 = Some r \<and> outcome r = Exported arch \<and>
      set (map fst arch) =
        set [''export_summary.json'', ''One.txt'', ''Two.txt'', ''Three.txt'', ''Four.txt'',
             ''Six.txt'', ''Seven.txt''] \<and>
      map_of arch ''export_summary.json'' = Some (JsonText (Inr s))) \<and>
   safeName ''a/b: c?'' = ''a_b_ c_'' \<and>
   (\<exists>r. exportAllConversations (\<lambda>d. ''date'') (\<lambda>full. full) ex_options ''2025-01-01''
          (Ok ex_listing) ex_answer = Some r \<and>
        map filename (all_downloads r) = [''claude-One.txt'', ''claude-u2.txt'']) \<and>
   (\<exists>r. exportAllConversations (\<lambda>d. ''date'') (\<lambda>full. full) ex_request ''2025-01-01''
          (Ok ex_listing) ex_answer = Some r \<and>
        map filename (all_downloads r) = [''claude-all-conversations-2025-01-01.json''])"
proof -
  note main = export_file_names [where request = ex_request and raw = ex_conv and h = ex_host
      and opts = ex_options and cid = "''c1''" and cname = "[]" and job = ex_job7
      and conv = "ex_summary ''u9'' ''a/b: c?''" and convs = ex_listing and answer = ex_answer
      and show_date = "\<lambda>d. ''date''" and stringify_all = "\<lambda>full. full"
      and today = "''2025-01-01''"]
  note text_opts = main [where all_opts = ex_options]
  note json_opts = main [where all_opts = ex_request]
  note c1 = text_opts [THEN conjunct1]
  note c2 = text_opts [THEN conjunct2, THEN conjunct1]
  note c3 = text_opts [THEN conjunct2, THEN conjunct2, THEN conjunct1]
  note c4 = text_opts [THEN conjunct2, THEN conjunct2, THEN conjunct2, THEN conjunct1]
  note c5 = text_opts [THEN conjunct2, THEN conjunct2, THEN conjunct2, THEN conjunct2, THEN conjunct1]
  note c6 = text_opts [THEN conjunct2, THEN conjunct2, THEN conjunct2, THEN conjunct2, THEN conjunct2,
      THEN conjunct1]
  note c7 = json_opts [THEN conjunct2, THEN conjunct2, THEN conjunct2, THEN conjunct2, THEN conjunct2,
      THEN conjunct2, THEN conjunct1]
  have "export_options.format ex_request = ''markdown'' \<or> export_options.format ex_request = ''text''
       \<longrightarrow> well_formed ex_conv"
    using ex_conv_well_formed by simp
  then have "\<exists>d. exportConversation_handler ex_host ex_request (Ok ex_conv) = Some (Downloaded d) \<and>
          filename d = ''claude-conversation-'' @
            (if name ex_conv \<noteq> [] then name ex_conv else conversationId ex_request) @
            spec_ext (export_options.format ex_request)"
    by (rule c1 [THEN mp])
  moreover have "''claude-conversation-'' @
            (if name ex_conv \<noteq> [] then name ex_conv else conversationId ex_request) @
            spec_ext (export_options.format ex_request) = ''claude-conversation-Trip.json''"
    by (simp add: ex_conv_def ex_request_def spec_ext_def)
  ultimately have 1: "\<exists>d. exportConversation_handler ex_host ex_request (Ok ex_conv) = Some (Downloaded d) \<and>
        filename d = ''claude-conversation-Trip.json''"
    by (simp only:)
  have "export_options.format ex_options = ''markdown'' \<or> export_options.format ex_options = ''text''
       \<longrightarrow> well_formed ex_conv"
    using ex_conv_well_formed by simp
  then have "\<exists>d. exportConversation ex_host ex_options ''c1'' [] (Ok ex_conv) = Some (Downloaded d) \<and>
          filename d = ''claude-'' @ (if ([]::string) \<noteq> [] then [] else ''c1'') @
            spec_ext (export_options.format ex_options)"
    by (rule c2 [THEN mp])
  moreover have "''claude-'' @ (if ([]::string) \<noteq> [] then [] else ''c1'') @
            spec_ext (export_options.format ex_options) = ''claude-c1.txt''"
    by (simp add: ex_options_def spec_ext_def)
  ultimately have 2: "\<exists>d. exportConversation ex_host ex_options ''c1'' [] (Ok ex_conv) = Some (Downloaded d) \<and>
        filename d = ''claude-c1.txt''"
    by (simp only:)
  have "renderable ex_job7 ex_conv"
    using ex_conv_well_formed by (simp add: renderable_def)
  then have "\<exists>doc. batch_entry ex_host ex_job7 (ex_summary ''u9'' ''a/b: c?'') ex_conv =
        Some (safeName (name (ex_summary ''u9'' ''a/b: c?'')) @
              spec_ext (export_options.format ex_job7), doc)"
    by (rule c3 [THEN mp])
  moreover have "safeName (name (ex_summary ''u9'' ''a/b: c?'')) @
              spec_ext (export_options.format ex_job7) = ''a_b_ c_.txt''"
    by (simp add: ex_summary_sel ex_job7_convs spec_ext_def safeName_def invalid_filename_chars_def)
  ultimately have 3: "\<exists>doc. batch_entry ex_host ex_job7 (ex_summary ''u9'' ''a/b: c?'') ex_conv =
        Some (''a_b_ c_.txt'', doc)"
    by (simp only:)
  have "(cancel_click ex_job7 = NoClick \<or> cancel_click ex_job7 = ClickInZip) \<and>
    (\<forall>c \<in> set (filteredConversations ex_job7).
       \<forall>raw. fetch ex_job7 (summary.uuid c) = Ok raw \<longrightarrow> renderable ex_job7 raw)"
    using ex_job7_well_formed by (simp add: ex_job7_convs(5))
  then have "\<exists>r arch s.
        exportAllFiltered ex_host ex_job7 = Some r \<and> outcome r = Exported arch \<and>
        set (map fst arch) =
          set (''export_summary.json'' #
               map (\<lambda>c. safeName (name c) @ spec_ext (export_options.format ex_job7))
                   (filter (fetch_ok ex_job7) (filteredConversations ex_job7))) \<and>
        map_of arch ''export_summary.json'' = Some (JsonText (stringify_summary ex_host s))"
    by (rule c4 [THEN mp])
  moreover have "''export_summary.json'' #
               map (\<lambda>c. safeName (name c) @ spec_ext (export_options.format ex_job7))
                   (filter (fetch_ok ex_job7) (filteredConversations ex_job7)) =
        [''export_summary.json'', ''One.txt'', ''Two.txt'', ''Three.txt'', ''Four.txt'',
             ''Six.txt'', ''Seven.txt'']"
    by (simp add: ex_job7_convs ex_job7_fetch_ok ex_summary_sel spec_ext_def safeName_def
        invalid_filename_chars_def)
  moreover have "stringify_summary ex_host = Inr" by (simp add: ex_host_def)
  ultimately have 4: "\<exists>r arch s.
      exportAllFiltered ex_host ex_job7 = Some r \<and> outcome r = Exported arch \<and>
      set (map fst arch) =
        set [''export_summary.json'', ''One.txt'', ''Two.txt'', ''Three.txt'', ''Four.txt'',
             ''Six.txt'', ''Seven.txt''] \<and>
      map_of arch ''export_summary.json'' = Some (JsonText (Inr s))"
    by (simp only:)
  from c5 have "\<forall>nm. safeName nm =
      map (\<lambda>c. if c \<in> {CHR ''<'', CHR ''>'', CHR '':'', CHR 0x22, CHR ''/'', CHR 0x5C, CHR ''|'',
                        CHR ''?'', CHR ''*''} then CHR ''_'' else c) nm" .
  then have 5: "safeName ''a/b: c?'' = ''a_b_ c_''" by simp
  have "(\<forall>c \<in> set ex_listing. \<forall>raw. ex_answer (summary.uuid c) = Ok raw \<longrightarrow> well_formed raw) \<and>
    export_options.format ex_options \<noteq> ''json''"
    using ex_answer_well_formed by (simp add: ex_options_def)
  then have "\<exists>r. exportAllConversations (\<lambda>d. ''date'') (\<lambda>full. full) ex_options ''2025-01-01''
            (Ok ex_listing) ex_answer = Some r \<and>
          map filename (all_downloads r) =
            map (\<lambda>c. ''claude-'' @ (if name c \<noteq> [] then name c else summary.uuid c) @
                      (if export_options.format ex_options = ''markdown'' then ''.md'' else ''.txt''))
                (filter (answered ex_answer) ex_listing)"
    by (rule c6 [THEN mp])
  moreover have "map (\<lambda>c. ''claude-'' @ (if name c \<noteq> [] then name c else summary.uuid c) @
                      (if export_options.format ex_options = ''markdown'' then ''.md'' else ''.txt''))
                (filter (answered ex_answer) ex_listing) = [''claude-One.txt'', ''claude-u2.txt'']"
    by (simp add: ex_listing_def ex_answered ex_summary_sel ex_options_def)
  ultimately have 6: "\<exists>r. exportAllConversations (\<lambda>d. ''date'') (\<lambda>full. full) ex_options ''2025-01-01''
          (Ok ex_listing) ex_answer = Some r \<and>
        map filename (all_downloads r) = [''claude-One.txt'', ''claude-u2.txt'']"
    by (simp only:)
  have "export_options.format ex_request = ''json''" by (simp add: ex_request_def)
  then have "\<exists>r. exportAllConversations (\<lambda>d. ''date'') (\<lambda>full. full) ex_request ''2025-01-01''
            (Ok ex_listing) ex_answer = Some r \<and>
          map filename (all_downloads r) = [''claude-all-conversations-'' @ ''2025-01-01'' @ ''.json'']"
    by (rule c7 [THEN mp])
  then have 7: "\<exists>r. exportAllConversations (\<lambda>d. ''date'') (\<lambda>full. full) ex_request ''2025-01-01''
          (Ok ex_listing) ex_answer = Some r \<and>
        map filename (all_downloads r) = [''claude-all-conversations-2025-01-01.json'']"
    by simp
  from 1 2 3 4 5 6 7 show ?thesis by (intro conjI)
qed

end
